theory Spec2Isabelle
  imports Main "HOL-Library.Sublist"
begin

section \<open>Strings and the regular expressions of the two scripts\<close>

text \<open>
  The repository holds two versions of the TODO-to-issue pipeline: \<^verbatim>\<open>src/unnamed/part_000\<close>
  (plain \<^verbatim>\<open>https\<close> requests; its definitions carry the suffix \<open>_p0\<close> where a name occurs in
  both scripts) and \<^verbatim>\<open>src/unnamed/part_001\<close> (Octokit; suffix \<open>_p1\<close>).

  A JavaScript string is modelled as a \<^typ>\<open>string\<close>, one \<^typ>\<open>char\<close> per code unit; the
  model covers the code units below 256. Among them the white space of \<^verbatim>\<open>\s\<close> and of
  \<^verbatim>\<open>String.prototype.trim\<close> is TAB, LF, VT, FF, CR, SPACE and NBSP, and the line
  terminators that \<^verbatim>\<open>.\<close> refuses are LF and CR.
\<close>

definition isWhiteSpace :: "char \<Rightarrow> bool" where
  "isWhiteSpace c \<longleftrightarrow>
     c = CHR 0x09 \<or> c = CHR 0x0A \<or> c = CHR 0x0B \<or> c = CHR 0x0C \<or> c = CHR 0x0D \<or>
     c = CHR '' '' \<or> c = CHR 0xA0"

definition isLineTerminator :: "char \<Rightarrow> bool" where
  "isLineTerminator c \<longleftrightarrow> c = CHR 0x0A \<or> c = CHR 0x0D"

text \<open>\<^verbatim>\<open>s.trim()\<close>\<close>

definition trim :: "string \<Rightarrow> string" where
  "trim s = rev (dropWhile isWhiteSpace (rev (dropWhile isWhiteSpace s)))"

text \<open>\<^verbatim>\<open>content.split('\n')\<close>: the pieces between line feeds; the empty string gives one
  empty piece.\<close>

fun splitLines :: "string \<Rightarrow> string list" where
  "splitLines [] = [[]]"
| "splitLines (c # cs) =
     (if c = CHR 0x0A then [] # splitLines cs
      else (case splitLines cs of [] \<Rightarrow> [[c]] | l # ls \<Rightarrow> (c # l) # ls))"

text \<open>
  The regular expressions are written with the backtracking of the ECMAScript matcher:
  each piece returns the first success in the matcher's order of preference.
  \<open>lit p s\<close> matches the literal \<open>p\<close> at the front of \<open>s\<close> and returns the rest;
  \<open>litI\<close> does so under the flag \<^verbatim>\<open>i\<close>, where a pattern character of ASCII matches the
  code units with the same ASCII upper case.
\<close>

fun lit :: "string \<Rightarrow> string \<Rightarrow> string option" where
  "lit [] s = Some s"
| "lit (p # ps) [] = None"
| "lit (p # ps) (c # cs) = (if c = p then lit ps cs else None)"

definition canonicalize :: "char \<Rightarrow> char" where
  "canonicalize c =
     (case map_of (zip ''abcdefghijklmnopqrstuvwxyz'' ''ABCDEFGHIJKLMNOPQRSTUVWXYZ'') c of
        Some u \<Rightarrow> u
      | None \<Rightarrow> c)"

fun litI :: "string \<Rightarrow> string \<Rightarrow> string option" where
  "litI [] s = Some s"
| "litI (p # ps) [] = None"
| "litI (p # ps) (c # cs) =
     (if canonicalize c = canonicalize p then litI ps cs else None)"

text \<open>\<^verbatim>\<open>\s*\<close> followed by the rest \<open>k\<close> of the pattern: greedy, so the longest run of white
  space is tried first and given back one character at a time while \<open>k\<close> fails.\<close>

fun starWs :: "(string \<Rightarrow> 'a option) \<Rightarrow> string \<Rightarrow> 'a option" where
  "starWs k [] = k []"
| "starWs k (c # cs) =
     (if isWhiteSpace c
      then (case starWs k cs of Some r \<Rightarrow> Some r | None \<Rightarrow> k (c # cs))
      else k (c # cs))"

text \<open>\<^verbatim>\<open>(.+)\<close> at the end of a pattern: the longest run of characters that are not line
  terminators, at least one.\<close>

definition dotPlus :: "string \<Rightarrow> string option" where
  "dotPlus s =
     (let t = takeWhile (\<lambda>c. \<not> isLineTerminator c) s in if t = [] then None else Some t)"

text \<open>The lookahead \<^verbatim>\<open>(?=-->|\*\/|$)\<close>; without the flag \<^verbatim>\<open>m\<close> the \<^verbatim>\<open>$\<close> is the end of
  the string.\<close>

definition closes :: "string \<Rightarrow> bool" where
  "closes s \<longleftrightarrow> lit ''-->'' s \<noteq> None \<or> lit ''*/'' s \<noteq> None \<or> s = []"

text \<open>\<^verbatim>\<open>(.+?)(?=-->|\*\/|$)\<close>: lazy, the shortest non-empty run of characters that are not
  line terminators after which the lookahead holds.\<close>

fun dotPlusLazy :: "string \<Rightarrow> string option" where
  "dotPlusLazy [] = None"
| "dotPlusLazy (c # cs) =
     (if isLineTerminator c then None
      else if closes cs then Some [c]
      else map_option ((#) c) (dotPlusLazy cs))"

text \<open>A pattern that is not anchored is tried at every position from the left.\<close>

fun search :: "(string \<Rightarrow> 'a option) \<Rightarrow> string \<Rightarrow> 'a option" where
  "search m [] = m []"
| "search m (c # cs) = (case m (c # cs) of Some r \<Rightarrow> Some r | None \<Rightarrow> search m cs)"

definition orElse :: "'a option \<Rightarrow> 'a option \<Rightarrow> 'a option" where
  "orElse a b = (case a of Some r \<Rightarrow> Some r | None \<Rightarrow> b)"

text \<open>part_000, \<^verbatim>\<open>extractTodos\<close>:
  \<^verbatim>\<open>todoRegex = /(?:\/\/|#|<!--|\/\*)\s*TODO:\s*(.+?)(?=-->|\*\/|$)/i\<close>.
  \<open>todoRegex line\<close> is \<^verbatim>\<open>match[1]\<close> of \<^verbatim>\<open>line.match(todoRegex)\<close>, \<open>None\<close> when there is no
  match.\<close>

definition todoTail :: "string \<Rightarrow> string option" where
  "todoTail =
     starWs (\<lambda>r. case litI ''TODO:'' r of None \<Rightarrow> None | Some r' \<Rightarrow> starWs dotPlusLazy r')"

definition todoRegexAt :: "string \<Rightarrow> string option" where
  "todoRegexAt s =
     orElse (Option.bind (lit ''//'' s) todoTail)
    (orElse (Option.bind (lit ''#'' s) todoTail)
    (orElse (Option.bind (lit ''<!--'' s) todoTail)
            (Option.bind (lit ''/*'' s) todoTail)))"

definition todoRegex :: "string \<Rightarrow> string option" where
  "todoRegex line = search todoRegexAt line"

text \<open>part_001, \<^verbatim>\<open>scanForTodos\<close>: \<^verbatim>\<open>line.match(/TODO:\s*(.+)/)\<close>, its group 1.\<close>

definition todoMatch :: "string \<Rightarrow> string option" where
  "todoMatch line =
     search (\<lambda>s. case lit ''TODO:'' s of None \<Rightarrow> None | Some r \<Rightarrow> starWs dotPlus r) line"

text \<open>Both scripts, \<^verbatim>\<open>fetchExistingTodoIssues\<close>: \<^verbatim>\<open>issue.body?.match(/fingerprint=(.+)/)\<close>,
  its group 1. The body of an issue may be \<^verbatim>\<open>null\<close>, and then there is no match.\<close>

definition fingerprintMatch :: "string option \<Rightarrow> string option" where
  "fingerprintMatch body =
     (case body of None \<Rightarrow> None
      | Some b \<Rightarrow> search (\<lambda>s. case lit ''fingerprint='' s of None \<Rightarrow> None | Some r \<Rightarrow> dotPlus r) b)"

section \<open>Identity Deriver\<close>

text \<open>part_001, \<^verbatim>\<open>generateFingerprint\<close>: the template string \<^verbatim>\<open>${filePath}|${todoText}\<close>. part_000 builds the
  same string in \<^verbatim>\<open>extractTodos\<close>.\<close>

definition generateFingerprint :: "string \<Rightarrow> string \<Rightarrow> string" where
  "generateFingerprint filePath todoText = filePath @ ''|'' @ todoText"

section \<open>Annotation Scanner\<close>

text \<open>
  The source tree under the working directory, as \<^verbatim>\<open>fs.readdirSync\<close> with
  \<^verbatim>\<open>withFileTypes\<close> and \<^verbatim>\<open>fs.readFileSync\<close> show it: a regular file with its text
  (\<open>None\<close> when reading it throws), a directory with its entries, a directory whose listing
  throws, and an entry that is neither file nor directory. The working directory itself is
  listed without error. The scanners' own console warnings are not part of the model.
\<close>

datatype entry =
    File string "string option"
  | Dir string "entry list"
  | DirUnreadable string
  | Other string

text \<open>\<^verbatim>\<open>path.relative(baseDir, path.join(dir, entry.name))\<close>, with \<open>dir\<close> given relative to
  the base directory (empty for the base directory itself).\<close>

definition joinPath :: "string \<Rightarrow> string \<Rightarrow> string" where
  "joinPath dir name = (if dir = [] then name else dir @ ''/'' @ name)"

subsection \<open>part_000\<close>

definition EXCLUDED_DIRS_p0 :: "string list" where
  "EXCLUDED_DIRS_p0 =
     [''.git'', ''node_modules'', ''vendor'', ''build'', ''dist'', ''out'', ''coverage'',
      ''.next'', ''.idea'', ''.vscode'']"

text \<open>\<^verbatim>\<open>scanDirectory\<close>: the files it yields, each with its relative path and its text;
  \<open>None\<close> when a listing throws, which nothing in the generator catches.\<close>

fun scanDirectory :: "string \<Rightarrow> entry list \<Rightarrow> (string \<times> string option) list option" where
  "scanDirectory dir [] = Some []"
| "scanDirectory dir (File name content # es) =
     map_option ((#) (joinPath dir name, content)) (scanDirectory dir es)"
| "scanDirectory dir (Dir name sub # es) =
     (if name \<in> set EXCLUDED_DIRS_p0 then scanDirectory dir es
      else (case scanDirectory (joinPath dir name) sub of
              None \<Rightarrow> None
            | Some ps \<Rightarrow> map_option ((@) ps) (scanDirectory dir es)))"
| "scanDirectory dir (DirUnreadable name # es) =
     (if name \<in> set EXCLUDED_DIRS_p0 then scanDirectory dir es else None)"
| "scanDirectory dir (Other name # es) = scanDirectory dir es"

record todo_p0 =
  text_p0 :: string
  filePath_p0 :: string
  fingerprint_p0 :: string

text \<open>\<^verbatim>\<open>extractTodos\<close>, from the relative path and the text of the file: one match per line
  at most, since \<^verbatim>\<open>todoRegex\<close> has no flag \<^verbatim>\<open>g\<close>. A file that cannot be read gives no
  annotation.\<close>

definition extractLine_p0 :: "string \<Rightarrow> string \<Rightarrow> todo_p0 option" where
  "extractLine_p0 relativePath line =
     (case todoRegex line of
        None \<Rightarrow> None
      | Some m \<Rightarrow>
          (let todoText = trim m
           in Some \<lparr>text_p0 = todoText, filePath_p0 = relativePath,
                    fingerprint_p0 = relativePath @ ''|'' @ todoText\<rparr>))"

definition extractTodos :: "string \<Rightarrow> string option \<Rightarrow> todo_p0 list" where
  "extractTodos relativePath content =
     (case content of
        None \<Rightarrow> []
      | Some c \<Rightarrow> List.map_filter (extractLine_p0 relativePath) (splitLines c))"

subsection \<open>part_001\<close>

definition EXCLUDED_DIRS_p1 :: "string list" where
  "EXCLUDED_DIRS_p1 =
     [''.git'', ''.github'', ''.circleci'', ''.cursor'', ''.vscode'', ''.idea'', ''.wrangler'',
      ''node_modules'', ''vendor'', ''build'', ''dist'', ''out'', ''coverage'', ''.next'',
      ''bin'', ''git_hooks'', ''infra'']"

record todo_p1 =
  filePath_p1 :: string
  text_p1 :: string
  lineNumber_p1 :: nat

definition scanLine_p1 :: "string \<Rightarrow> string \<times> nat \<Rightarrow> todo_p1 option" where
  "scanLine_p1 relativePath li =
     (case todoMatch (fst li) of
        None \<Rightarrow> None
      | Some m \<Rightarrow> Some \<lparr>filePath_p1 = relativePath, text_p1 = trim m, lineNumber_p1 = snd li + 1\<rparr>)"

definition scanFile_p1 :: "string \<Rightarrow> string option \<Rightarrow> todo_p1 list" where
  "scanFile_p1 relativePath content =
     (case content of
        None \<Rightarrow> []
      | Some c \<Rightarrow>
          (let lines = splitLines c
           in List.map_filter (scanLine_p1 relativePath) (zip lines [0 ..< length lines])))"

text \<open>\<^verbatim>\<open>scanForTodos\<close>: a directory whose listing throws is reported and gives nothing.\<close>

fun scanForTodos :: "string \<Rightarrow> entry list \<Rightarrow> todo_p1 list" where
  "scanForTodos dir [] = []"
| "scanForTodos dir (File name content # es) =
     scanFile_p1 (joinPath dir name) content @ scanForTodos dir es"
| "scanForTodos dir (Dir name sub # es) =
     (if name \<in> set EXCLUDED_DIRS_p1 then scanForTodos dir es
      else scanForTodos (joinPath dir name) sub @ scanForTodos dir es)"
| "scanForTodos dir (DirUnreadable name # es) = scanForTodos dir es"
| "scanForTodos dir (Other name # es) = scanForTodos dir es"

section \<open>The remote tracker and the console\<close>

text \<open>
  The remote service is a black box to the scripts. The model gives it the state the
  scripts depend on, the issues of the one repository the run addresses, and takes the rest
  of its behaviour as a parameter \<open>svc\<close>: which requests of the run fail (a network error, an
  answer outside 2xx, an answer that does not parse), which \<^verbatim>\<open>node_id\<close> a created issue
  gets, and what the project queries answer for the configured project number.

  What the model assumes of the service: a failed creation request creates nothing; a
  successful one stores title, body and labels as sent, open; the listing returns the open
  issues labelled \<^verbatim>\<open>todo\<close>, 100 to a page, in the order of \<open>issues\<close>, and announces a next
  page while issues remain. Owner and repository names, the project number, the messages of
  errors and the one-second pause of part_000 are not modelled.
\<close>

record issue =
  number :: nat
  title :: string
  body :: "string option"
  labels :: "string list"
  isOpen :: bool
  node_id :: "string option"

datatype request =
    ListIssues nat
  | CreateIssue string string
  | UserProject
  | OrgProject
  | ViewerProject
  | AddProjectItem string string

record service =
  fails :: "nat \<Rightarrow> bool"
  nodeIdFor :: "nat \<Rightarrow> string option"
  userProject :: "string option"
  orgProject :: "string option"
  viewerProject :: "string option"
  itemAdded :: "nat \<Rightarrow> bool"

text \<open>The console lines of \<^verbatim>\<open>main\<close> and of the functions that call the service, one
  constructor for each \<^verbatim>\<open>console\<close> call, with the values the line interpolates.\<close>

datatype logline =
    Banner
  | MissingEnvironment
  | FetchingExisting
  | FoundExisting nat
  | Scanning
  | FoundTodos nat
  | CreatingIssue string
  | CreatedIssue nat
  | FetchingProject
  | FoundUserProject
  | TryingOrganization
  | FoundOrgProject
  | OrgProjectNotFound
  | AddingToProject
  | AddedToProject
  | ErrorCreatingIssue string
  | SkippingDuplicate string
  | Summary nat nat nat
  | FatalError
  | NoTodosFound
  | ErrorFetchingIssues
  | FoundNew nat
  | NoNewTodos
  | ErrorFetchingProject
  | ProjectIdLine string
  | WarnNoProject
  | ErrorCreatingTodo string
  | ErrorAddingToProject
  | FailedToProcess string
  | Complete nat

record world =
  issues :: "issue list"
  trace :: "request list"
  console :: "logline list"

text \<open>A request: it is recorded in the trace, and it succeeds unless the service fails the
  request of that index.\<close>

definition send :: "service \<Rightarrow> request \<Rightarrow> world \<Rightarrow> bool \<times> world" where
  "send svc r w = (\<not> fails svc (length (trace w)), w\<lparr>trace := trace w @ [r]\<rparr>)"

definition say :: "logline \<Rightarrow> world \<Rightarrow> world" where
  "say l w = w\<lparr>console := console w @ [l]\<rparr>"

text \<open>JavaScript truthiness of a string that may be absent.\<close>

definition truthy :: "string option \<Rightarrow> bool" where
  "truthy v \<longleftrightarrow> (case v of None \<Rightarrow> False | Some s \<Rightarrow> s \<noteq> [])"

definition todoIssues :: "issue list \<Rightarrow> issue list" where
  "todoIssues is = filter (\<lambda>i. isOpen i \<and> ''todo'' \<in> set (labels i)) is"

definition listPage :: "issue list \<Rightarrow> nat \<Rightarrow> issue list" where
  "listPage is page = take 100 (drop (100 * (page - 1)) (todoIssues is))"

text \<open>The loop over the issues of an answer, in both scripts: the set of the trimmed
  matches of \<^verbatim>\<open>/fingerprint=(.+)/\<close>.\<close>

definition fingerprintsOf :: "issue list \<Rightarrow> string set" where
  "fingerprintsOf is = set (List.map_filter (\<lambda>i. map_option trim (fingerprintMatch (body i))) is)"

definition newIssue :: "world \<Rightarrow> string \<Rightarrow> string \<Rightarrow> string option \<Rightarrow> issue" where
  "newIssue w t b nid =
     \<lparr>number = Suc (length (issues w)), title = t, body = Some b,
      labels = [''engineering'', ''todo''], isOpen = True, node_id = nid\<rparr>"

record env =
  GITHUB_TOKEN :: "string option"
  GITHUB_REPOSITORY :: "string option"

section \<open>The pipeline of part_000\<close>

text \<open>\<^verbatim>\<open>fetchExistingTodoIssues\<close>: one request, for the first page of 100. \<open>None\<close> is the
  rejected promise.\<close>

definition fetchExistingTodoIssues_p0 :: "service \<Rightarrow> world \<Rightarrow> string set option \<times> world" where
  "fetchExistingTodoIssues_p0 svc w =
     (case send svc (ListIssues 1) (say FetchingExisting w) of
        (ok, w1) \<Rightarrow>
          if \<not> ok then (None, w1)
          else (let fingerprints = fingerprintsOf (listPage (issues w1) 1)
                in (Some fingerprints, say (FoundExisting (card fingerprints)) w1)))"

text \<open>The body that \<^verbatim>\<open>createIssue\<close> writes:
  the file line, an empty line, a rule, the \<^verbatim>\<open>CI_METADATA\<close> line and the fingerprint line.\<close>

definition issueBody_p0 :: "string \<Rightarrow> string \<Rightarrow> string" where
  "issueBody_p0 filePath fingerprint =
     ''**File:** '' @ [CHR 0x60] @ filePath @ [CHR 0x60, CHR 0x0A, CHR 0x0A] @
     ''---'' @ [CHR 0x0A] @
     ''**CI_METADATA**'' @ [CHR 0x0A] @
     ''fingerprint='' @ fingerprint @ [CHR 0x0A]"

definition createIssue_p0 ::
  "service \<Rightarrow> string \<Rightarrow> string \<Rightarrow> string \<Rightarrow> world \<Rightarrow> issue option \<times> world" where
  "createIssue_p0 svc todoText filePath fingerprint w =
     (let w1 = say (CreatingIssue todoText) w
      in case send svc (CreateIssue (''TODO: '' @ todoText) (issueBody_p0 filePath fingerprint)) w1 of
           (ok, w2) \<Rightarrow>
             if \<not> ok then (None, w2)
             else (let i = newIssue w2 (''TODO: '' @ todoText) (issueBody_p0 filePath fingerprint)
                             (nodeIdFor svc (length (trace w1)))
                   in (Some i, say (CreatedIssue (number i)) (w2\<lparr>issues := i # issues w2\<rparr>))))"

text \<open>\<^verbatim>\<open>addItemToProject\<close>: \<open>False\<close> is the rejected promise.\<close>

definition addItemToProject :: "service \<Rightarrow> string \<Rightarrow> string \<Rightarrow> world \<Rightarrow> bool \<times> world" where
  "addItemToProject svc projectId issueNodeId w =
     (let w1 = say AddingToProject w
      in case send svc (AddProjectItem projectId issueNodeId) w1 of
           (ok, w2) \<Rightarrow>
             if \<not> ok then (False, w2)
             else (True, if itemAdded svc (length (trace w1)) then say AddedToProject w2 else w2))"

text \<open>\<^verbatim>\<open>addIssueToProject\<close>, its second half: the owner as an organization, then the
  \<^verbatim>\<open>throw\<close> of line 206 (\<open>False\<close>).\<close>

definition addIssueToProject_org :: "service \<Rightarrow> string \<Rightarrow> world \<Rightarrow> bool \<times> world" where
  "addIssueToProject_org svc issueNodeId w =
     (case send svc OrgProject w of
        (ok, w1) \<Rightarrow>
          if \<not> ok then (False, say OrgProjectNotFound w1)
          else (case orgProject svc of
                  None \<Rightarrow> (False, w1)
                | Some orgProjectId \<Rightarrow>
                    if orgProjectId = [] then (False, w1)
                    else (case addItemToProject svc orgProjectId issueNodeId (say FoundOrgProject w1) of
                            (added, w2) \<Rightarrow>
                              if added then (True, w2) else (False, say OrgProjectNotFound w2))))"

text \<open>\<^verbatim>\<open>addIssueToProject\<close>: the owner as a user first; an error there, also one of the
  attaching request, is caught and leads to the second half.\<close>

definition addIssueToProject_p0 :: "service \<Rightarrow> string \<Rightarrow> world \<Rightarrow> bool \<times> world" where
  "addIssueToProject_p0 svc issueNodeId w =
     (case send svc UserProject (say FetchingProject w) of
        (ok, w1) \<Rightarrow>
          if \<not> ok then addIssueToProject_org svc issueNodeId (say TryingOrganization w1)
          else (case userProject svc of
                  None \<Rightarrow> addIssueToProject_org svc issueNodeId w1
                | Some projectId \<Rightarrow>
                    if projectId = [] then addIssueToProject_org svc issueNodeId w1
                    else (case addItemToProject svc projectId issueNodeId (say FoundUserProject w1) of
                            (added, w2) \<Rightarrow>
                              if added then (True, w2)
                              else addIssueToProject_org svc issueNodeId (say TryingOrganization w2))))"

text \<open>The loop of \<^verbatim>\<open>main\<close> over \<^verbatim>\<open>allTodos\<close>, with \<^verbatim>\<open>createdCount\<close> and the world as its
  state. The \<^verbatim>\<open>catch\<close> of the loop body receives the errors of \<^verbatim>\<open>createIssue\<close> and of
  \<^verbatim>\<open>addIssueToProject\<close> alike.\<close>

fun createLoop_p0 :: "service \<Rightarrow> string set \<Rightarrow> todo_p0 list \<Rightarrow> nat \<times> world \<Rightarrow> nat \<times> world" where
  "createLoop_p0 svc existingFingerprints [] (createdCount, w) = (createdCount, w)"
| "createLoop_p0 svc existingFingerprints (todo # todos) (createdCount, w) =
     (if fingerprint_p0 todo \<notin> existingFingerprints then
        (case createIssue_p0 svc (text_p0 todo) (filePath_p0 todo) (fingerprint_p0 todo) w of
           (None, w1) \<Rightarrow>
             createLoop_p0 svc existingFingerprints todos
               (createdCount, say (ErrorCreatingIssue (text_p0 todo)) w1)
         | (Some issue, w1) \<Rightarrow>
             if truthy (node_id issue) then
               (case addIssueToProject_p0 svc (case node_id issue of Some n \<Rightarrow> n | None \<Rightarrow> []) w1 of
                  (added, w2) \<Rightarrow>
                    if added then createLoop_p0 svc existingFingerprints todos (Suc createdCount, w2)
                    else createLoop_p0 svc existingFingerprints todos
                           (createdCount, say (ErrorCreatingIssue (text_p0 todo)) w2))
             else createLoop_p0 svc existingFingerprints todos (Suc createdCount, w1))
      else createLoop_p0 svc existingFingerprints todos
             (createdCount, say (SkippingDuplicate (text_p0 todo)) w))"

definition allTodos_p0 :: "(string \<times> string option) list \<Rightarrow> todo_p0 list" where
  "allTodos_p0 files = concat (map (\<lambda>(filePath, content). extractTodos filePath content) files)"

text \<open>\<^verbatim>\<open>main\<close> with the handler of its last lines: the exit status of the process and the
  world it leaves. A rejected promise anywhere outside the loop body is fatal.\<close>

definition main_p0 :: "env \<Rightarrow> service \<Rightarrow> entry list \<Rightarrow> world \<Rightarrow> nat \<times> world" where
  "main_p0 e svc tree w0 =
     (let w = say Banner w0
      in if \<not> truthy (GITHUB_TOKEN e) \<or> \<not> truthy (GITHUB_REPOSITORY e)
         then (1, say MissingEnvironment w)
         else (case fetchExistingTodoIssues_p0 svc w of
                 (None, w1) \<Rightarrow> (1, say FatalError w1)
               | (Some existingFingerprints, w1) \<Rightarrow>
                   (case scanDirectory [] tree of
                      None \<Rightarrow> (1, say FatalError (say Scanning w1))
                    | Some files \<Rightarrow>
                        (let allTodos = allTodos_p0 files;
                             w2 = say (FoundTodos (length allTodos)) (say Scanning w1)
                         in case createLoop_p0 svc existingFingerprints allTodos (0, w2) of
                              (createdCount, w3) \<Rightarrow>
                                (0, say (Summary (length allTodos) createdCount
                                           (length allTodos - createdCount)) w3)))))"

section \<open>The pipeline of part_001\<close>

text \<open>\<^verbatim>\<open>fetchExistingTodoIssues\<close>: the iterator of \<^verbatim>\<open>octokit.paginate\<close> requests page after
  page while the service announces a next one. \<open>all\<close> is the list the pages are cut from.
  An error of any request is reported and thrown again (\<open>None\<close>).\<close>

function fetchPages ::
  "service \<Rightarrow> issue list \<Rightarrow> nat \<Rightarrow> string set \<Rightarrow> world \<Rightarrow> string set option \<times> world" where
  "fetchPages svc all page existingFingerprints w =
     (case send svc (ListIssues page) w of
        (ok, w1) \<Rightarrow>
          if \<not> ok then (None, say ErrorFetchingIssues w1)
          else (let found = existingFingerprints \<union> fingerprintsOf (take 100 (drop (100 * (page - 1)) all))
                in if 100 * page < length all
                   then fetchPages svc all (Suc page) found w1
                   else (Some found, w1)))"
  by pat_completeness auto
termination
  by (relation "measure (\<lambda>(svc, all, page, acc, w). length all - 100 * page)") auto

definition fetchExistingTodoIssues_p1 :: "service \<Rightarrow> world \<Rightarrow> string set option \<times> world" where
  "fetchExistingTodoIssues_p1 svc w = fetchPages svc (todoIssues (issues w)) 1 {} w"

text \<open>The body that \<^verbatim>\<open>createIssue\<close> writes: the file line, the text of the annotation under
  a \<^verbatim>\<open>TODO\<close> heading, a rule, the \<^verbatim>\<open>CI_METADATA\<close> line and the fingerprint line inside a
  fence.\<close>

definition issueBody_p1 :: "todo_p1 \<Rightarrow> string \<Rightarrow> string" where
  "issueBody_p1 todo fingerprint =
     ''**File:** '' @ [CHR 0x60] @ filePath_p1 todo @ [CHR 0x60, CHR 0x0A, CHR 0x0A] @
     ''**TODO:**'' @ [CHR 0x0A] @
     text_p1 todo @ [CHR 0x0A, CHR 0x0A] @
     ''---'' @ [CHR 0x0A] @
     ''**CI_METADATA**'' @ [CHR 0x0A] @
     [CHR 0x60, CHR 0x60, CHR 0x60, CHR 0x0A] @
     ''fingerprint='' @ fingerprint @ [CHR 0x0A] @
     [CHR 0x60, CHR 0x60, CHR 0x60, CHR 0x0A]"

definition createIssue_p1 :: "service \<Rightarrow> todo_p1 \<Rightarrow> string \<Rightarrow> world \<Rightarrow> issue option \<times> world" where
  "createIssue_p1 svc todo fingerprint w =
     (case send svc (CreateIssue (''TODO: '' @ text_p1 todo) (issueBody_p1 todo fingerprint)) w of
        (ok, w1) \<Rightarrow>
          if \<not> ok then (None, say (ErrorCreatingTodo (text_p1 todo)) w1)
          else (let i = newIssue w1 (''TODO: '' @ text_p1 todo) (issueBody_p1 todo fingerprint)
                          (nodeIdFor svc (length (trace w)))
                in (Some i, say (CreatedIssue (number i)) (w1\<lparr>issues := i # issues w1\<rparr>))))"

text \<open>\<^verbatim>\<open>getProjectId\<close>: an answer without a project makes \<^verbatim>\<open>response.viewer.projectV2.id\<close>
  throw inside the \<^verbatim>\<open>try\<close>, as a failed request does.\<close>

definition getProjectId :: "service \<Rightarrow> world \<Rightarrow> string option \<times> world" where
  "getProjectId svc w =
     (case send svc ViewerProject w of
        (ok, w1) \<Rightarrow>
          if \<not> ok then (None, say ErrorFetchingProject w1)
          else (case viewerProject svc of
                  None \<Rightarrow> (None, say ErrorFetchingProject w1)
                | Some projectId \<Rightarrow> (Some projectId, w1)))"

text \<open>\<^verbatim>\<open>addIssueToProject\<close>: it catches the error of its request and does not throw.\<close>

definition addIssueToProject_p1 :: "service \<Rightarrow> string \<Rightarrow> string \<Rightarrow> world \<Rightarrow> world" where
  "addIssueToProject_p1 svc projectId issueNodeId w =
     (case send svc (AddProjectItem projectId issueNodeId) w of
        (ok, w1) \<Rightarrow> if ok then say AddedToProject w1 else say ErrorAddingToProject w1)"

text \<open>Step 3 of \<^verbatim>\<open>main\<close>: \<^verbatim>\<open>todos.filter(...)\<close>.\<close>

definition newTodos :: "string set \<Rightarrow> todo_p1 list \<Rightarrow> todo_p1 list" where
  "newTodos existingFingerprints todos =
     filter (\<lambda>todo. generateFingerprint (filePath_p1 todo) (text_p1 todo) \<notin> existingFingerprints) todos"

text \<open>Step 5 of \<^verbatim>\<open>main\<close>: the loop over \<^verbatim>\<open>newTodos\<close>.\<close>

fun createLoop_p1 :: "service \<Rightarrow> string option \<Rightarrow> todo_p1 list \<Rightarrow> nat \<times> world \<Rightarrow> nat \<times> world" where
  "createLoop_p1 svc projectId [] (createdCount, w) = (createdCount, w)"
| "createLoop_p1 svc projectId (todo # todos) (createdCount, w) =
     (let fingerprint = generateFingerprint (filePath_p1 todo) (text_p1 todo)
      in case createIssue_p1 svc todo fingerprint w of
           (None, w1) \<Rightarrow>
             createLoop_p1 svc projectId todos (createdCount, say (FailedToProcess (text_p1 todo)) w1)
         | (Some issue, w1) \<Rightarrow>
             createLoop_p1 svc projectId todos
               (Suc createdCount,
                if truthy projectId \<and> truthy (node_id issue)
                then addIssueToProject_p1 svc (case projectId of Some p \<Rightarrow> p | None \<Rightarrow> [])
                       (case node_id issue of Some n \<Rightarrow> n | None \<Rightarrow> []) w1
                else w1))"

text \<open>Step 4 of \<^verbatim>\<open>main\<close>: the project id, or \<^verbatim>\<open>undefined\<close> with a warning.\<close>

definition resolveProject_p1 :: "service \<Rightarrow> world \<Rightarrow> string option \<times> world" where
  "resolveProject_p1 svc w =
     (case getProjectId svc w of
        (None, w1) \<Rightarrow> (None, say WarnNoProject w1)
      | (Some projectId, w1) \<Rightarrow> (Some projectId, say (ProjectIdLine projectId) w1))"

definition main_p1 :: "env \<Rightarrow> service \<Rightarrow> entry list \<Rightarrow> world \<Rightarrow> nat \<times> world" where
  "main_p1 e svc tree w0 =
     (let w = say Banner w0
      in if \<not> truthy (GITHUB_TOKEN e) then (1, say MissingEnvironment w)
         else if \<not> truthy (GITHUB_REPOSITORY e) then (1, say MissingEnvironment w)
         else (let todos = scanForTodos [] tree;
                   w1 = say (FoundTodos (length todos)) (say Scanning w)
               in if todos = [] then (0, say NoTodosFound w1)
                  else (case fetchExistingTodoIssues_p1 svc (say FetchingExisting w1) of
                          (None, w2) \<Rightarrow> (1, say FatalError w2)
                        | (Some existingFingerprints, w2) \<Rightarrow>
                            (let w3 = say (FoundExisting (card existingFingerprints)) w2;
                                 new = newTodos existingFingerprints todos;
                                 w4 = say (FoundNew (length new)) w3
                             in if new = [] then (0, say NoNewTodos w4)
                                else (case resolveProject_p1 svc w4 of
                                        (projectId, w5) \<Rightarrow>
                                          (case createLoop_p1 svc projectId new (0, w5) of
                                             (createdCount, w6) \<Rightarrow>
                                               (0, say (Complete createdCount) w6)))))))"

section \<open>Notions the properties are stated with\<close>

text \<open>A run starts with a tracker that holds the issues \<open>is\<close>, no request sent and nothing
  printed.\<close>

definition start :: "issue list \<Rightarrow> world" where
  "start is = \<lparr>issues = is, trace = [], console = []\<rparr>"

text \<open>The record-creation requests of a trace, in the order they were sent.\<close>

fun isCreate :: "request \<Rightarrow> bool" where
  "isCreate (CreateIssue t b) = True"
| "isCreate r = False"

definition creations :: "request list \<Rightarrow> request list" where
  "creations tr = filter isCreate tr"

fun isList :: "request \<Rightarrow> bool" where
  "isList (ListIssues page) = True"
| "isList r = False"

text \<open>The creation request each script sends for an annotation.\<close>

definition createRequest_p0 :: "todo_p0 \<Rightarrow> request" where
  "createRequest_p0 todo =
     CreateIssue (''TODO: '' @ text_p0 todo) (issueBody_p0 (filePath_p0 todo) (fingerprint_p0 todo))"

definition createRequest_p1 :: "todo_p1 \<Rightarrow> request" where
  "createRequest_p1 todo =
     CreateIssue (''TODO: '' @ text_p1 todo)
       (issueBody_p1 todo (generateFingerprint (filePath_p1 todo) (text_p1 todo)))"

definition identity_p1 :: "todo_p1 \<Rightarrow> string" where
  "identity_p1 todo = generateFingerprint (filePath_p1 todo) (text_p1 todo)"

text \<open>What a run scans and what its reconciliation selects, from the issues \<open>tr\<close> of the
  tracker at the start and the source tree: part_000 compares with the identities of the
  first page, part_001 with those of all open issues labelled \<^verbatim>\<open>todo\<close>.\<close>

definition scanned_p0 :: "entry list \<Rightarrow> todo_p0 list" where
  "scanned_p0 tree = (case scanDirectory [] tree of None \<Rightarrow> [] | Some files \<Rightarrow> allTodos_p0 files)"

definition selected_p0 :: "issue list \<Rightarrow> entry list \<Rightarrow> todo_p0 list" where
  "selected_p0 tr tree =
     filter (\<lambda>t. fingerprint_p0 t \<notin> fingerprintsOf (listPage tr 1)) (scanned_p0 tree)"

definition selected_p1 :: "issue list \<Rightarrow> entry list \<Rightarrow> todo_p1 list" where
  "selected_p1 tr tree = newTodos (fingerprintsOf (todoIssues tr)) (scanForTodos [] tree)"

text \<open>The annotation text of a creation request (its title without \<^verbatim>\<open>TODO: \<close>), and the
  texts of the console lines that report a failed item, in the order printed.\<close>

fun todoTextOf :: "request \<Rightarrow> string" where
  "todoTextOf (CreateIssue t b) = drop 6 t"
| "todoTextOf r = []"

fun failureText :: "logline \<Rightarrow> string option" where
  "failureText (ErrorCreatingIssue t) = Some t"
| "failureText (FailedToProcess t) = Some t"
| "failureText l = None"

definition failures :: "logline list \<Rightarrow> string list" where
  "failures ls = List.map_filter failureText ls"

text \<open>\<open>adds w w' cs\<close>: from \<open>w\<close> to \<open>w'\<close> the trace grew by requests whose creation requests
  are \<open>cs\<close> and none of which lists issues. \<open>prints w w' fs\<close>: the console grew by lines
  whose failure reports are \<open>fs\<close>. \<open>logged svc w\<close>: every failed creation request of the trace
  has its failure report on the console.\<close>

definition adds :: "world \<Rightarrow> world \<Rightarrow> request list \<Rightarrow> bool" where
  "adds w w' cs \<longleftrightarrow> (\<exists>xs. trace w' = trace w @ xs \<and> creations xs = cs \<and> filter isList xs = [])"

definition prints :: "world \<Rightarrow> world \<Rightarrow> string list \<Rightarrow> bool" where
  "prints w w' fs \<longleftrightarrow> (\<exists>ls. console w' = console w @ ls \<and> failures ls = fs)"

definition logged :: "service \<Rightarrow> world \<Rightarrow> bool" where
  "logged svc w \<longleftrightarrow>
     list_all (\<lambda>j. isCreate (trace w ! j) \<and> fails svc j \<longrightarrow>
                   todoTextOf (trace w ! j) \<in> set (failures (console w)))
       [0 ..< length (trace w)]"

text \<open>How many of the issues bear the identity \<open>f\<close>, as the Remote State Reader reads
  them.\<close>

definition recordsBearing :: "string \<Rightarrow> issue list \<Rightarrow> nat" where
  "recordsBearing f is =
     length (filter (\<lambda>i. map_option trim (fingerprintMatch (body i)) = Some f) is)"

text \<open>The reading of the scanner's contract: \<open>marked line rest\<close> says that \<open>line\<close> holds a
  comment delimiter, white space, \<^verbatim>\<open>TODO:\<close> in any letter case, and then \<open>rest\<close>.\<close>

definition commentDelimiters :: "string list" where
  "commentDelimiters = [''//'', ''#'', ''<!--'', ''/*'']"

definition marked :: "string \<Rightarrow> string \<Rightarrow> bool" where
  "marked line rest \<longleftrightarrow>
     (\<exists>pre d ws kw.
        line = pre @ d @ ws @ kw @ rest \<and> d \<in> set commentDelimiters \<and>
        list_all isWhiteSpace ws \<and> map canonicalize kw = ''TODO:'')"

subsection \<open>Sample inputs\<close>

text \<open>A service that fails no request and knows no project, a complete configuration,
  and the trees and issues of the examples below.\<close>

definition reliable :: service where
  "reliable =
     \<lparr>fails = (\<lambda>n. False), nodeIdFor = (\<lambda>n. Some ''N''), userProject = None,
      orgProject = None, viewerProject = None, itemAdded = (\<lambda>n. True)\<rparr>"

definition configured :: env where
  "configured = \<lparr>GITHUB_TOKEN = Some ''t'', GITHUB_REPOSITORY = Some ''o/r''\<rparr>"

definition unrelated :: issue where
  "unrelated =
     \<lparr>number = 7, title = ''Buy milk'', body = Some ''today'', labels = [''todo''],
      isOpen = True, node_id = None\<rparr>"

definition tracked :: issue where
  "tracked =
     \<lparr>number = 3, title = ''TODO: fix auth'',
      body = Some (issueBody_p0 ''a.txt'' ''a.txt|fix auth''),
      labels = [''engineering'', ''todo''], isOpen = True, node_id = None\<rparr>"

definition keepStable :: todo_p1 where
  "keepStable =
     \<lparr>filePath_p1 = ''a.js'', text_p1 = ''keep fingerprint=abc stable'', lineNumber_p1 = 1\<rparr>"

definition treeKeepStable :: "entry list" where
  "treeKeepStable = [File ''a.js'' (Some ''// TODO: keep fingerprint=abc stable'')]"

definition treeTwice :: "entry list" where
  "treeTwice = [File ''a.js'' (Some (''// TODO: fix auth'' @ [CHR 0x0A] @ ''// TODO: fix auth''))]"

definition treeOne :: "entry list" where
  "treeOne = [File ''a.txt'' (Some ''// TODO: fix auth'')]"

definition failing :: "nat \<Rightarrow> service" where
  "failing k = reliable\<lparr>fails := (\<lambda>n. n = k)\<rparr>"

definition treeThree :: "entry list" where
  "treeThree =
     [File ''a.js'' (Some (''// TODO: one'' @ [CHR 0x0A] @ ''// TODO: two'' @ [CHR 0x0A] @
                           ''// TODO: three''))]"

definition todoOne :: todo_p0 where
  "todoOne = \<lparr>text_p0 = ''one'', filePath_p0 = ''a.js'', fingerprint_p0 = ''a.js|one''\<rparr>"

definition todoTwo :: todo_p0 where
  "todoTwo = \<lparr>text_p0 = ''two'', filePath_p0 = ''a.js'', fingerprint_p0 = ''a.js|two''\<rparr>"

definition todoThree :: todo_p0 where
  "todoThree = \<lparr>text_p0 = ''three'', filePath_p0 = ''a.js'', fingerprint_p0 = ''a.js|three''\<rparr>"

section \<open>Identity\<close>

lemma extractTodos_fingerprint:
  "td \<in> set (extractTodos p c) \<Longrightarrow>
   fingerprint_p0 td = generateFingerprint (filePath_p0 td) (text_p0 td)"
  by (auto simp: extractTodos_def extractLine_p0_def generateFingerprint_def
        map_filter_def Let_def split: option.splits)

text \<open>
  Claim C3. The identity of an annotation is a function of its path and text alone, and it
  is injective in each of them: with the text fixed, different paths give different
  identities, and with the path fixed, different texts do. The fingerprint that
  \<^verbatim>\<open>extractTodos\<close> of part_000 stores is this same function of the stored path and text.
\<close>

theorem generateFingerprint_stable:
  "generateFingerprint p t = generateFingerprint p t \<and>
   (p1 \<noteq> p2 \<longrightarrow> generateFingerprint p1 t \<noteq> generateFingerprint p2 t) \<and>
   (t1 \<noteq> t2 \<longrightarrow> generateFingerprint p t1 \<noteq> generateFingerprint p t2) \<and>
   (\<forall>td \<in> set (extractTodos p c).
      fingerprint_p0 td = generateFingerprint (filePath_p0 td) (text_p0 td))"
  using extractTodos_fingerprint by (auto simp: generateFingerprint_def)

theorem generateFingerprint_stable_witness:
  "''a.txt'' \<noteq> ''b.txt'' \<and> ''fix auth'' \<noteq> ''fix login'' \<and>
   generateFingerprint ''a.txt'' ''fix auth'' \<noteq> generateFingerprint ''b.txt'' ''fix auth'' \<and>
   generateFingerprint ''a.txt'' ''fix auth'' \<noteq> generateFingerprint ''a.txt'' ''fix login'' \<and>
   generateFingerprint ''src/x.ts'' ''Refactor later (see #42)'' = ''src/x.ts|Refactor later (see #42)'' \<and>
   map fingerprint_p0 (extractTodos ''a.txt'' (Some ''// TODO: fix auth'')) = [''a.txt|fix auth'']"
proof -
  have e: "extractTodos ''a.txt'' (Some ''// TODO: fix auth'') =
           [\<lparr>text_p0 = ''fix auth'', filePath_p0 = ''a.txt'', fingerprint_p0 = ''a.txt|fix auth''\<rparr>]"
    by code_simp
  show ?thesis
    using generateFingerprint_stable [of "''a.txt''" "''fix auth''" "''a.txt''" "''b.txt''"
        "''fix auth''" "''fix login''" "Some ''// TODO: fix auth''"]
    by (simp add: e generateFingerprint_def)
qed

section \<open>The marker of the record body\<close>

text \<open>
  Claim C4, at a failing input. The annotation \<^verbatim>\<open>// TODO: keep fingerprint=abc stable\<close> in
  \<^verbatim>\<open>a.js\<close> has the identity \<^verbatim>\<open>a.js|keep fingerprint=abc stable\<close>. The body part_001 writes
  for it repeats the text above the marker line, and the reader's pattern stops at the first
  \<^verbatim>\<open>fingerprint=\<close> of the body: it recovers \<^verbatim>\<open>abc stable\<close>, not the identity.
\<close>

theorem marker_roundtrip_keepStable:
  "identity_p1 keepStable = ''a.js|keep fingerprint=abc stable'' \<and>
   map_option trim (fingerprintMatch (Some (issueBody_p1 keepStable (identity_p1 keepStable))))
     = Some ''abc stable''"
  by code_simp

section \<open>Two runs\<close>

text \<open>
  Claim C1, at a failing input. With \<^verbatim>\<open>// TODO: keep fingerprint=abc stable\<close> in \<^verbatim>\<open>a.js\<close>,
  an empty tracker and a service that fails nothing, the first run of part_001 creates one
  record; the second run, started on the tracker the first one left, reads the identity
  \<^verbatim>\<open>abc stable\<close> from it and creates the same record again.
\<close>

theorem second_run_keepStable:
  "(case main_p1 configured reliable treeKeepStable (start []) of
      (c1, w1) \<Rightarrow>
        (case main_p1 configured reliable treeKeepStable (start (issues w1)) of
           (c2, w2) \<Rightarrow>
             creations (trace w1) = [createRequest_p1 keepStable] \<and>
             fingerprintsOf (issues w1) = {''abc stable''} \<and>
             creations (trace w2) = [createRequest_p1 keepStable] \<and>
             length (issues w2) = 2))"
  by code_simp

section \<open>Reading the tracker\<close>

text \<open>
  Claim C5, at a failing input. The tracker holds 101 open issues labelled \<^verbatim>\<open>todo\<close>: 100
  without a marker and, last in the listing, one with the marker of \<^verbatim>\<open>a.txt|fix auth\<close>.
  part_000 requests the first page only and returns the empty set; part_001 follows the
  pages and finds the identity.
\<close>

theorem fetch_first_page_only:
  "fst (fetchExistingTodoIssues_p0 reliable (start (replicate 100 unrelated @ [tracked]))) = Some {} \<and>
   fst (fetchExistingTodoIssues_p1 reliable (start (replicate 100 unrelated @ [tracked])))
     = Some {''a.txt|fix auth''}"
  by code_simp

section \<open>Linking to the project\<close>

text \<open>
  Claim C8, at a failing input. The owner has no project of the configured number, neither
  as a user nor as an organization. part_000 creates the record for \<^verbatim>\<open>// TODO: fix auth\<close>,
  \<^verbatim>\<open>addIssueToProject\<close> throws, the loop reports an error of creation, and the summary
  counts no record created and one annotation skipped. part_001, where the project is not
  found either, counts the record.
\<close>

theorem unlinked_record_not_counted:
  "fst (main_p0 configured reliable treeOne (start [])) = 0 \<and>
   length (issues (snd (main_p0 configured reliable treeOne (start [])))) = 1 \<and>
   trace (snd (main_p0 configured reliable treeOne (start []))) =
     [ListIssues 1,
      createRequest_p0 \<lparr>text_p0 = ''fix auth'', filePath_p0 = ''a.txt'',
                         fingerprint_p0 = ''a.txt|fix auth''\<rparr>,
      UserProject, OrgProject] \<and>
   ErrorCreatingIssue ''fix auth'' \<in> set (console (snd (main_p0 configured reliable treeOne (start [])))) \<and>
   last (console (snd (main_p0 configured reliable treeOne (start [])))) = Summary 1 0 1 \<and>
   length (issues (snd (main_p1 configured reliable treeOne (start [])))) = 1 \<and>
   last (console (snd (main_p1 configured reliable treeOne (start [])))) = Complete 1"
  by code_simp

theorem unlinked_record_not_counted_witness:
  "length (issues (snd (main_p0 configured reliable treeOne (start [])))) = 1 \<and>
   last (console (snd (main_p0 configured reliable treeOne (start [])))) = Summary 1 0 1"
  using unlinked_record_not_counted by simp

section \<open>Traces and console of the operations\<close>

lemma send_fst [simp]: "fst (send svc r w) = (\<not> fails svc (length (trace w)))"
  by (simp add: send_def)
lemma send_trace [simp]: "trace (snd (send svc r w)) = trace w @ [r]"
  by (simp add: send_def)
lemma send_issues [simp]: "issues (snd (send svc r w)) = issues w"
  by (simp add: send_def)
lemma send_console [simp]: "console (snd (send svc r w)) = console w"
  by (simp add: send_def)
lemma say_trace [simp]: "trace (say l w) = trace w"
  by (simp add: say_def)
lemma say_issues [simp]: "issues (say l w) = issues w"
  by (simp add: say_def)
lemma say_console [simp]: "console (say l w) = console w @ [l]"
  by (simp add: say_def)

lemma creations_append [simp]: "creations (xs @ ys) = creations xs @ creations ys"
  by (simp add: creations_def)
lemma creations_Nil [simp]: "creations [] = []"
  by (simp add: creations_def)
lemma creations_Cons [simp]: "creations (r # rs) = (if isCreate r then r # creations rs else creations rs)"
  by (simp add: creations_def)

lemma adds_refl [simp]: "adds w w []"
  by (simp add: adds_def)

lemma adds_say [simp]: "adds w (say l w') cs = adds w w' cs" "adds (say l w) w' cs = adds w w' cs"
  by (simp_all add: adds_def)

lemma adds_trans: "adds w w1 cs \<Longrightarrow> adds w1 w2 ds \<Longrightarrow> adds w w2 (cs @ ds)"
  by (auto simp: adds_def)

lemma adds_send_create: "adds w (snd (send svc (CreateIssue t b) w)) [CreateIssue t b]"
  by (simp add: adds_def)
lemma adds_send_other: "\<not> isCreate r \<Longrightarrow> \<not> isList r \<Longrightarrow> adds w (snd (send svc r w)) []"
  by (simp add: adds_def)

lemma createIssue_p0_adds:
  "adds w (snd (createIssue_p0 svc t p f w)) [CreateIssue (''TODO: '' @ t) (issueBody_p0 p f)]"
  by (simp add: createIssue_p0_def Let_def split_beta adds_def)

lemma addItemToProject_adds: "adds w (snd (addItemToProject svc pid nid w)) []"
  by (simp add: addItemToProject_def Let_def split_beta adds_def)

lemma addIssueToProject_org_adds: "adds w (snd (addIssueToProject_org svc nid w)) []"
  by (simp add: addIssueToProject_org_def addItemToProject_def Let_def split_beta adds_def split: option.splits)

lemma addIssueToProject_p0_adds: "adds w (snd (addIssueToProject_p0 svc nid w)) []"
proof -
  have o: "\<And>w1. adds w w1 [] \<Longrightarrow> adds w (snd (addIssueToProject_org svc nid w1)) []"
    using adds_trans [OF _ addIssueToProject_org_adds] by fastforce
  have u: "adds w (snd (send svc UserProject (say FetchingProject w))) []"
    by (simp add: adds_def)
  have i: "\<And>pid. adds w (snd (addItemToProject svc pid nid (say FoundUserProject (snd (send svc UserProject (say FetchingProject w)))))) []"
    by (simp add: addItemToProject_def Let_def split_beta adds_def)
  show ?thesis
    unfolding addIssueToProject_p0_def
    using o [OF u] o i u
    by (simp add: split_beta split: option.splits)
qed

lemma createLoop_p0_adds:
  "adds w (snd (createLoop_p0 svc E S (n, w))) (map createRequest_p0 (filter (\<lambda>t. fingerprint_p0 t \<notin> E) S))"
proof (induction S arbitrary: n w)
  case Nil
  then show ?case by simp
next
  case (Cons t S)
  let ?rest = "map createRequest_p0 (filter (\<lambda>t. fingerprint_p0 t \<notin> E) S)"
  show ?case
  proof (cases "fingerprint_p0 t \<in> E")
    case True
    have "adds (say (SkippingDuplicate (text_p0 t)) w) (snd (createLoop_p0 svc E S (n, say (SkippingDuplicate (text_p0 t)) w))) ?rest"
      by (rule Cons.IH)
    then show ?thesis using True by simp
  next
    case False
    obtain r w1 where c: "createIssue_p0 svc (text_p0 t) (filePath_p0 t) (fingerprint_p0 t) w = (r, w1)"
      by (cases "createIssue_p0 svc (text_p0 t) (filePath_p0 t) (fingerprint_p0 t) w")
    have t1: "adds w w1 [createRequest_p0 t]"
      using createIssue_p0_adds [of w svc "text_p0 t" "filePath_p0 t" "fingerprint_p0 t"] c
      by (simp add: createRequest_p0_def)
    have step: "\<And>m w2. adds w1 w2 [] \<Longrightarrow> adds w (snd (createLoop_p0 svc E S (m, w2))) (createRequest_p0 t # ?rest)"
    proof -
      fix m w2 assume "adds w1 w2 []"
      then have "adds w w2 [createRequest_p0 t]" using adds_trans [OF t1] by fastforce
      then show "adds w (snd (createLoop_p0 svc E S (m, w2))) (createRequest_p0 t # ?rest)"
        using adds_trans [OF _ Cons.IH [of w2 m]] by fastforce
    qed
    show ?thesis
    proof (cases r)
      case None
      have "adds w1 (say (ErrorCreatingIssue (text_p0 t)) w1) []" by simp
      then show ?thesis using False c None step by simp
    next
      case (Some i)
      obtain a w2 where l: "addIssueToProject_p0 svc (case node_id i of Some n \<Rightarrow> n | None \<Rightarrow> []) w1 = (a, w2)"
        by (cases "addIssueToProject_p0 svc (case node_id i of Some n \<Rightarrow> n | None \<Rightarrow> []) w1")
      have t2: "adds w1 w2 []"
        using addIssueToProject_p0_adds [of w1 svc] l by (metis snd_conv)
      have t3: "adds w1 (say (ErrorCreatingIssue (text_p0 t)) w2) []" using t2 by simp
      have t4: "adds w1 w1 []" by simp
      show ?thesis using False c Some l step [OF t2] step [OF t3] step [OF t4] by simp
    qed
  qed
qed


lemma failures_append [simp]: "failures (xs @ ys) = failures xs @ failures ys"
  by (simp add: failures_def map_filter_def)
lemma failures_Nil [simp]: "failures [] = []"
  by (simp add: failures_def map_filter_def)
lemma failures_Cons [simp]:
  "failures (l # ls) = (case failureText l of Some t \<Rightarrow> t # failures ls | None \<Rightarrow> failures ls)"
  by (simp add: failures_def map_filter_def split: option.splits)

lemma prints_refl [simp]: "prints w w []"
  by (simp add: prints_def)
lemma prints_trans: "prints w w1 fs \<Longrightarrow> prints w1 w2 gs \<Longrightarrow> prints w w2 (fs @ gs)"
  by (auto simp: prints_def)
lemma prints_say: "prints w (say l w) (failures [l])"
  by (simp add: prints_def)
lemma prints_quiet: "prints w w1 fs \<Longrightarrow> failureText l = None \<Longrightarrow> prints w (say l w1) fs"
  by (auto simp: prints_def)
lemma prints_send [simp]: "prints w (snd (send svc r w1)) fs = prints w w1 fs"
  by (simp add: prints_def)

lemma createIssue_p0_prints: "prints w (snd (createIssue_p0 svc t p f w)) []"
  by (simp add: createIssue_p0_def Let_def split_beta prints_def)

lemma createIssue_p0_issues:
  "length (issues (snd (createIssue_p0 svc t p f w))) =
   (if fst (createIssue_p0 svc t p f w) = None then length (issues w) else Suc (length (issues w)))"
  by (simp add: createIssue_p0_def Let_def split_beta)

lemma addItemToProject_prints: "prints w (snd (addItemToProject svc pid nid w)) []"
  by (simp add: addItemToProject_def Let_def split_beta prints_def)

lemma addIssueToProject_org_prints: "prints w (snd (addIssueToProject_org svc nid w)) []"
  by (simp add: addIssueToProject_org_def addItemToProject_def Let_def split_beta prints_def split: option.splits)

lemma addIssueToProject_p0_prints: "prints w (snd (addIssueToProject_p0 svc nid w)) []"
  by (simp add: addIssueToProject_p0_def addIssueToProject_org_def addItemToProject_def Let_def split_beta prints_def split: option.splits)


lemma createLoop_p0_prints:
  "createLoop_p0 svc E S (n, w) = (c', w') \<Longrightarrow>
   \<exists>fs. prints w w' fs \<and> subseq fs (map text_p0 (filter (\<lambda>t. fingerprint_p0 t \<notin> E) S)) \<and>
        c' + length fs = n + length (filter (\<lambda>t. fingerprint_p0 t \<notin> E) S)"
proof (induction S arbitrary: n w c' w')
  case Nil
  then show ?case by auto
next
  case (Cons t S)
  let ?sel = "filter (\<lambda>t. fingerprint_p0 t \<notin> E) S"
  have quiet: "\<And>m w2. prints w w2 [] \<Longrightarrow> createLoop_p0 svc E S (m, w2) = (c', w') \<Longrightarrow>
     \<exists>fs. prints w w' fs \<and> subseq fs (map text_p0 ?sel) \<and> c' + length fs = m + length ?sel"
  proof -
    fix m w2 assume a: "prints w w2 []" and b: "createLoop_p0 svc E S (m, w2) = (c', w')"
    from Cons.IH [OF b] obtain fs where f: "prints w2 w' fs" "subseq fs (map text_p0 ?sel)"
      "c' + length fs = m + length ?sel" by blast
    have "prints w w' fs" using prints_trans [OF a f(1)] by simp
    then show "\<exists>fs. prints w w' fs \<and> subseq fs (map text_p0 ?sel) \<and> c' + length fs = m + length ?sel"
      using f by blast
  qed
  have loud: "\<And>m w2. prints w w2 [text_p0 t] \<Longrightarrow> createLoop_p0 svc E S (m, w2) = (c', w') \<Longrightarrow>
     \<exists>fs. prints w w' fs \<and> subseq fs (text_p0 t # map text_p0 ?sel) \<and> c' + length fs = Suc m + length ?sel"
  proof -
    fix m w2 assume a: "prints w w2 [text_p0 t]" and b: "createLoop_p0 svc E S (m, w2) = (c', w')"
    from Cons.IH [OF b] obtain fs where f: "prints w2 w' fs" "subseq fs (map text_p0 ?sel)"
      "c' + length fs = m + length ?sel" by blast
    have "prints w w' (text_p0 t # fs)" using prints_trans [OF a f(1)] by simp
    moreover have "subseq (text_p0 t # fs) (text_p0 t # map text_p0 ?sel)" using f(2) by simp
    ultimately show "\<exists>fs. prints w w' fs \<and> subseq fs (text_p0 t # map text_p0 ?sel) \<and> c' + length fs = Suc m + length ?sel"
      using f(3) by fastforce
  qed
  show ?case
  proof (cases "fingerprint_p0 t \<in> E")
    case True
    have "prints w (say (SkippingDuplicate (text_p0 t)) w) []"
      using prints_say [of w "SkippingDuplicate (text_p0 t)"] by simp
    from quiet [OF this] show ?thesis using True Cons.prems by simp
  next
    case False
    obtain r w1 where c: "createIssue_p0 svc (text_p0 t) (filePath_p0 t) (fingerprint_p0 t) w = (r, w1)"
      by (cases "createIssue_p0 svc (text_p0 t) (filePath_p0 t) (fingerprint_p0 t) w")
    have p1: "prints w w1 []"
      using createIssue_p0_prints [of w svc "text_p0 t" "filePath_p0 t" "fingerprint_p0 t"] c by simp
    have perr: "\<And>w2. prints w w2 [] \<Longrightarrow> prints w (say (ErrorCreatingIssue (text_p0 t)) w2) [text_p0 t]"
      using prints_trans [OF _ prints_say [of _ "ErrorCreatingIssue (text_p0 t)"]] by fastforce
    show ?thesis
    proof (cases r)
      case None
      from loud [OF perr [OF p1]] show ?thesis using False c None Cons.prems by simp
    next
      case (Some i)
      obtain a w2 where l: "addIssueToProject_p0 svc (case node_id i of Some n \<Rightarrow> n | None \<Rightarrow> []) w1 = (a, w2)"
        by (cases "addIssueToProject_p0 svc (case node_id i of Some n \<Rightarrow> n | None \<Rightarrow> []) w1")
      have "prints w1 w2 []"
        using addIssueToProject_p0_prints [of w1 svc] l by (metis snd_conv)
      then have p2: "prints w w2 []" using prints_trans [OF p1] by fastforce
      have sub: "\<And>fs. subseq fs (map text_p0 ?sel) \<Longrightarrow> subseq fs (text_p0 t # map text_p0 ?sel)"
        by (rule list_emb_Cons)
      show ?thesis
      proof (cases "truthy (node_id i)")
        case True
        show ?thesis
        proof (cases a)
          case True
          from quiet [OF p2, of "Suc n"] show ?thesis
            using False c Some l \<open>truthy (node_id i)\<close> True Cons.prems sub by (auto split: if_splits)
        next
          case False
          from loud [OF perr [OF p2], of n] show ?thesis
            using \<open>fingerprint_p0 t \<notin> E\<close> c Some l \<open>truthy (node_id i)\<close> False Cons.prems by simp
        qed
      next
        case False
        from quiet [OF p1, of "Suc n"] show ?thesis
          using \<open>fingerprint_p0 t \<notin> E\<close> c Some False Cons.prems sub by auto
      qed
    qed
  qed
qed


lemma logged_iff:
  "logged svc w \<longleftrightarrow>
   (\<forall>j < length (trace w). isCreate (trace w ! j) \<and> fails svc j \<longrightarrow>
      todoTextOf (trace w ! j) \<in> set (failures (console w)))"
  by (auto simp: logged_def list_all_iff)

lemma logged_start: "logged svc (start is)"
  by (simp add: logged_iff start_def)

lemma creations_empty_iff: "creations xs = [] \<longleftrightarrow> (\<forall>r \<in> set xs. \<not> isCreate r)"
  by (simp add: creations_def filter_empty_conv)

lemma logged_adds:
  assumes "logged svc w" "adds w w' []" "prints w w' fs"
  shows "logged svc w'"
proof -
  from assms(2) obtain xs where xs: "trace w' = trace w @ xs" "creations xs = []"
    by (auto simp: adds_def)
  from assms(3) obtain ls where ls: "console w' = console w @ ls"
    by (auto simp: prints_def)
  show ?thesis
    unfolding logged_iff
  proof (intro allI impI)
    fix j assume j: "j < length (trace w')" and c: "isCreate (trace w' ! j) \<and> fails svc j"
    have "j < length (trace w)"
    proof (rule ccontr)
      assume "\<not> j < length (trace w)"
      then have "trace w' ! j = xs ! (j - length (trace w))" "j - length (trace w) < length xs"
        using xs j by (auto simp: nth_append)
      then have "trace w' ! j \<in> set xs" by (metis nth_mem)
      then show False using c xs(2) by (simp add: creations_empty_iff)
    qed
    then show "todoTextOf (trace w' ! j) \<in> set (failures (console w'))"
      using assms(1) c xs ls by (auto simp: logged_iff nth_append)
  qed
qed

lemma logged_create:
  assumes "logged svc w" "trace w' = trace w @ [CreateIssue (''TODO: '' @ t) b]"
    "console w' = console w @ ls" "fails svc (length (trace w)) \<longrightarrow> t \<in> set (failures ls)"
  shows "logged svc w'"
  unfolding logged_iff
proof (intro allI impI)
  fix j assume j: "j < length (trace w')" and c: "isCreate (trace w' ! j) \<and> fails svc j"
  show "todoTextOf (trace w' ! j) \<in> set (failures (console w'))"
  proof (cases "j < length (trace w)")
    case True
    then show ?thesis using assms(1,2,3) c by (auto simp: logged_iff nth_append)
  next
    case False
    then have "j = length (trace w)" using j assms(2) by simp
    then show ?thesis using assms(2,3,4) c by (simp add: nth_append)
  qed
qed

lemma createIssue_p0_fst:
  "fst (createIssue_p0 svc t p f w) = None \<longleftrightarrow> fails svc (length (trace w))"
  by (simp add: createIssue_p0_def Let_def split_beta)

lemma createIssue_p0_trace:
  "trace (snd (createIssue_p0 svc t p f w)) = trace w @ [CreateIssue (''TODO: '' @ t) (issueBody_p0 p f)]"
  by (simp add: createIssue_p0_def Let_def split_beta)

lemma createIssue_p0_console:
  "\<exists>ls. console (snd (createIssue_p0 svc t p f w)) = console w @ ls \<and> failures ls = []"
  by (simp add: createIssue_p0_def Let_def split_beta)

lemma createIssue_p0_logged:
  assumes "logged svc w" "createIssue_p0 svc t p f w = (r, w1)"
  shows "(r \<noteq> None \<longrightarrow> logged svc w1) \<and> (r = None \<longrightarrow> logged svc (say (ErrorCreatingIssue t) w1))"
proof -
  have tr: "trace w1 = trace w @ [CreateIssue (''TODO: '' @ t) (issueBody_p0 p f)]"
    using createIssue_p0_trace [of svc t p f w] assms(2) by simp
  obtain ls where ls: "console w1 = console w @ ls"
    using createIssue_p0_console [of svc t p f w] assms(2) by auto
  have r: "r = None \<longleftrightarrow> fails svc (length (trace w))"
    using createIssue_p0_fst [of svc t p f w] assms(2) by simp
  have a: "r \<noteq> None \<longrightarrow> logged svc w1"
    using logged_create [OF assms(1) tr ls] r by simp
  have b: "logged svc (say (ErrorCreatingIssue t) w1)"
    by (rule logged_create [OF assms(1), where ls = "ls @ [ErrorCreatingIssue t]" and t = t])
       (simp_all add: tr ls)
  show ?thesis using a b by simp
qed

lemma createLoop_p0_logged:
  "logged svc w \<Longrightarrow> logged svc (snd (createLoop_p0 svc E S (n, w)))"
proof (induction S arbitrary: n w)
  case Nil
  then show ?case by simp
next
  case (Cons t S)
  show ?case
  proof (cases "fingerprint_p0 t \<in> E")
    case True
    have "logged svc (say (SkippingDuplicate (text_p0 t)) w)"
      by (rule logged_adds [OF Cons.prems, where fs = "[]"]) (simp_all add: prints_def)
    then show ?thesis using True Cons.IH by simp
  next
    case False
    obtain r w1 where c: "createIssue_p0 svc (text_p0 t) (filePath_p0 t) (fingerprint_p0 t) w = (r, w1)"
      by (cases "createIssue_p0 svc (text_p0 t) (filePath_p0 t) (fingerprint_p0 t) w")
    note cl = createIssue_p0_logged [OF Cons.prems c]
    show ?thesis
    proof (cases r)
      case None
      then show ?thesis using False c cl Cons.IH by simp
    next
      case (Some i)
      then have l1: "logged svc w1" using cl by simp
      obtain a w2 where l: "addIssueToProject_p0 svc (case node_id i of Some n \<Rightarrow> n | None \<Rightarrow> []) w1 = (a, w2)"
        by (cases "addIssueToProject_p0 svc (case node_id i of Some n \<Rightarrow> n | None \<Rightarrow> []) w1")
      have ad: "adds w1 w2 []" using addIssueToProject_p0_adds [of w1 svc] l by (metis snd_conv)
      have pr: "prints w1 w2 []" using addIssueToProject_p0_prints [of w1 svc] l by (metis snd_conv)
      have l2: "logged svc w2" by (rule logged_adds [OF l1 ad pr])
      have l3: "logged svc (say (ErrorCreatingIssue (text_p0 t)) w2)"
        by (rule logged_adds [OF l2, where fs = "[text_p0 t]"]) (simp_all add: prints_def)
      show ?thesis using False c Some l l1 l2 l3 Cons.IH by simp
    qed
  qed
qed

lemma createIssue_p1_fst:
  "fst (createIssue_p1 svc todo f w) = None \<longleftrightarrow> fails svc (length (trace w))"
  by (simp add: createIssue_p1_def Let_def split_beta)

lemma createIssue_p1_trace:
  "trace (snd (createIssue_p1 svc todo f w)) =
   trace w @ [CreateIssue (''TODO: '' @ text_p1 todo) (issueBody_p1 todo f)]"
  by (simp add: createIssue_p1_def Let_def split_beta)

lemma createIssue_p1_console:
  "\<exists>ls. console (snd (createIssue_p1 svc todo f w)) = console w @ ls \<and> failures ls = []"
  by (simp add: createIssue_p1_def Let_def split_beta)

lemma createIssue_p1_issues:
  "length (issues (snd (createIssue_p1 svc todo f w))) =
   (if fails svc (length (trace w)) then length (issues w) else Suc (length (issues w)))"
  by (simp add: createIssue_p1_def Let_def split_beta)

lemma createIssue_p1_adds:
  "adds w (snd (createIssue_p1 svc todo (identity_p1 todo) w)) [createRequest_p1 todo]"
  by (simp add: adds_def createIssue_p1_trace createRequest_p1_def identity_p1_def)

lemma createIssue_p1_prints: "prints w (snd (createIssue_p1 svc todo f w)) []"
  using createIssue_p1_console [of svc todo f w] by (auto simp: prints_def)

lemma addIssueToProject_p1_adds: "adds w (addIssueToProject_p1 svc pid nid w) []"
  by (simp add: addIssueToProject_p1_def split_beta adds_def)

lemma addIssueToProject_p1_prints: "prints w (addIssueToProject_p1 svc pid nid w) []"
  by (simp add: addIssueToProject_p1_def split_beta prints_def)

lemma addIssueToProject_p1_issues [simp]: "issues (addIssueToProject_p1 svc pid nid w) = issues w"
  by (simp add: addIssueToProject_p1_def split_beta)

lemma createIssue_p1_logged:
  assumes "logged svc w" "createIssue_p1 svc todo f w = (r, w1)"
  shows "(r \<noteq> None \<longrightarrow> logged svc w1) \<and>
         (r = None \<longrightarrow> logged svc (say (FailedToProcess (text_p1 todo)) w1))"
proof -
  have tr: "trace w1 = trace w @ [CreateIssue (''TODO: '' @ text_p1 todo) (issueBody_p1 todo f)]"
    using createIssue_p1_trace [of svc todo f w] assms(2) by simp
  obtain ls where ls: "console w1 = console w @ ls"
    using createIssue_p1_console [of svc todo f w] assms(2) by auto
  have r: "r = None \<longleftrightarrow> fails svc (length (trace w))"
    using createIssue_p1_fst [of svc todo f w] assms(2) by simp
  have a: "r \<noteq> None \<longrightarrow> logged svc w1"
    using logged_create [OF assms(1) tr ls] r by simp
  have b: "logged svc (say (FailedToProcess (text_p1 todo)) w1)"
    by (rule logged_create [OF assms(1), where ls = "ls @ [FailedToProcess (text_p1 todo)]"
          and t = "text_p1 todo"])
       (simp_all add: tr ls)
  show ?thesis using a b by simp
qed

text \<open>One pass of the loop body of part_001, as a function of the state.\<close>

lemma createLoop_p1_step:
  "createLoop_p1 svc pid (t # S) (n, w) =
   (case createIssue_p1 svc t (identity_p1 t) w of
      (None, w1) \<Rightarrow> createLoop_p1 svc pid S (n, say (FailedToProcess (text_p1 t)) w1)
    | (Some i, w1) \<Rightarrow>
        createLoop_p1 svc pid S
          (Suc n, if truthy pid \<and> truthy (node_id i)
                  then addIssueToProject_p1 svc (case pid of Some p \<Rightarrow> p | None \<Rightarrow> [])
                         (case node_id i of Some n \<Rightarrow> n | None \<Rightarrow> []) w1
                  else w1))"
  by (simp add: identity_p1_def Let_def)

lemma createLoop_p1_adds:
  "adds w (snd (createLoop_p1 svc pid S (n, w))) (map createRequest_p1 S)"
proof (induction S arbitrary: n w)
  case Nil
  then show ?case by simp
next
  case (Cons t S)
  obtain r w1 where c: "createIssue_p1 svc t (identity_p1 t) w = (r, w1)"
    by (cases "createIssue_p1 svc t (identity_p1 t) w")
  have t1: "adds w w1 [createRequest_p1 t]"
    using createIssue_p1_adds [of w svc t] c by simp
  have step: "\<And>m w2. adds w1 w2 [] \<Longrightarrow>
      adds w (snd (createLoop_p1 svc pid S (m, w2))) (createRequest_p1 t # map createRequest_p1 S)"
  proof -
    fix m w2 assume "adds w1 w2 []"
    then have "adds w w2 [createRequest_p1 t]" using adds_trans [OF t1] by fastforce
    then show "adds w (snd (createLoop_p1 svc pid S (m, w2))) (createRequest_p1 t # map createRequest_p1 S)"
      using adds_trans [OF _ Cons.IH [of w2 m]] by fastforce
  qed
  show ?case
  proof (cases r)
    case None
    have "adds w1 (say (FailedToProcess (text_p1 t)) w1) []" by simp
    from step [OF this] show ?thesis using c None by (simp add: createLoop_p1_step del: createLoop_p1.simps)
  next
    case (Some i)
    have a: "adds w1 w1 []" by simp
    show ?thesis
      using c Some step [OF a] step [OF addIssueToProject_p1_adds]
      by (simp add: createLoop_p1_step del: createLoop_p1.simps)
  qed
qed

lemma createLoop_p1_prints:
  "createLoop_p1 svc pid S (n, w) = (c', w') \<Longrightarrow>
   \<exists>fs. prints w w' fs \<and> subseq fs (map text_p1 S) \<and> c' + length fs = n + length S \<and>
        length (issues w') + length fs = length (issues w) + length S"
proof (induction S arbitrary: n w c' w')
  case Nil
  then show ?case by auto
next
  case (Cons t S)
  obtain r w1 where c: "createIssue_p1 svc t (identity_p1 t) w = (r, w1)"
    by (cases "createIssue_p1 svc t (identity_p1 t) w")
  have p1: "prints w w1 []"
    using createIssue_p1_prints [of w svc t "identity_p1 t"] c by simp
  have r: "r = None \<longleftrightarrow> fails svc (length (trace w))"
    using createIssue_p1_fst [of svc t "identity_p1 t" w] c by simp
  have i1: "length (issues w1) = (if r = None then length (issues w) else Suc (length (issues w)))"
    using createIssue_p1_issues [of svc t "identity_p1 t" w] c r by simp
  show ?case
  proof (cases r)
    case None
    let ?w2 = "say (FailedToProcess (text_p1 t)) w1"
    have run: "createLoop_p1 svc pid S (n, ?w2) = (c', w')"
      using Cons.prems c None by (simp add: createLoop_p1_step del: createLoop_p1.simps)
    from Cons.IH [OF run] obtain fs where f: "prints ?w2 w' fs" "subseq fs (map text_p1 S)"
      "c' + length fs = n + length S" "length (issues w') + length fs = length (issues ?w2) + length S"
      by blast
    have "prints w ?w2 [text_p1 t]"
      using prints_trans [OF p1 prints_say [of w1 "FailedToProcess (text_p1 t)"]] by simp
    then have "prints w w' (text_p1 t # fs)" using prints_trans [OF _ f(1)] by fastforce
    moreover have "subseq (text_p1 t # fs) (map text_p1 (t # S))" using f(2) by simp
    ultimately show ?thesis using f(3,4) i1 None by fastforce
  next
    case (Some i)
    let ?w2 = "if truthy pid \<and> truthy (node_id i)
               then addIssueToProject_p1 svc (case pid of Some p \<Rightarrow> p | None \<Rightarrow> [])
                      (case node_id i of Some n \<Rightarrow> n | None \<Rightarrow> []) w1
               else w1"
    have run: "createLoop_p1 svc pid S (Suc n, ?w2) = (c', w')"
      using Cons.prems c Some by (simp add: createLoop_p1_step del: createLoop_p1.simps)
    from Cons.IH [OF run] obtain fs where f: "prints ?w2 w' fs" "subseq fs (map text_p1 S)"
      "c' + length fs = Suc n + length S" "length (issues w') + length fs = length (issues ?w2) + length S"
      by blast
    have "prints w1 ?w2 []" using addIssueToProject_p1_prints by simp
    then have "prints w ?w2 []" using prints_trans [OF p1] by fastforce
    then have "prints w w' fs" using prints_trans [OF _ f(1)] by fastforce
    moreover have "subseq fs (map text_p1 (t # S))" using f(2) by (simp add: list_emb_Cons)
    moreover have "length (issues ?w2) = Suc (length (issues w))" using i1 Some by simp
    ultimately show ?thesis using f(3,4) by fastforce
  qed
qed

lemma createLoop_p1_logged:
  "logged svc w \<Longrightarrow> logged svc (snd (createLoop_p1 svc pid S (n, w)))"
proof (induction S arbitrary: n w)
  case Nil
  then show ?case by simp
next
  case (Cons t S)
  obtain r w1 where c: "createIssue_p1 svc t (identity_p1 t) w = (r, w1)"
    by (cases "createIssue_p1 svc t (identity_p1 t) w")
  note cl = createIssue_p1_logged [OF Cons.prems c]
  show ?case
  proof (cases r)
    case None
    then show ?thesis using c cl Cons.IH by (simp add: createLoop_p1_step del: createLoop_p1.simps)
  next
    case (Some i)
    then have l1: "logged svc w1" using cl by simp
    have l2: "\<And>p q. logged svc (addIssueToProject_p1 svc p q w1)"
      by (rule logged_adds [OF l1 addIssueToProject_p1_adds addIssueToProject_p1_prints])
    show ?thesis using c Some l1 l2 Cons.IH by (simp add: createLoop_p1_step del: createLoop_p1.simps)
  qed
qed

lemma fingerprintsOf_append: "fingerprintsOf (xs @ ys) = fingerprintsOf xs \<union> fingerprintsOf ys"
  by (simp add: fingerprintsOf_def map_filter_def)

lemma fingerprintsOf_page:
  assumes "1 \<le> page"
  shows "fingerprintsOf (take 100 (drop (100 * (page - 1)) all)) \<union> fingerprintsOf (drop (100 * page) all)
         = fingerprintsOf (drop (100 * (page - 1)) all)"
proof -
  obtain q where q: "page = Suc q" using assms by (cases page) auto
  have d: "drop (100 * Suc q) all = drop 100 (drop (100 * q) all)"
    by (simp add: add.commute)
  have "fingerprintsOf (take 100 (drop (100 * q) all) @ drop 100 (drop (100 * q) all))
        = fingerprintsOf (drop (100 * q) all)"
    by (simp only: append_take_drop_id)
  then show ?thesis
    unfolding q d by (simp only: fingerprintsOf_append diff_Suc_1)
qed

lemma fetchPages_result:
  "1 \<le> page \<Longrightarrow> fetchPages svc all page acc w = (r, w') \<Longrightarrow>
   issues w' = issues w \<and> prints w w' [] \<and>
   (\<exists>k. trace w' = trace w @ map ListIssues [page ..< page + Suc k] \<and>
        (\<forall>i<k. \<not> fails svc (length (trace w) + i)) \<and>
        (r = None \<longleftrightarrow> fails svc (length (trace w) + k))) \<and>
   (r \<noteq> None \<longrightarrow> r = Some (acc \<union> fingerprintsOf (drop (100 * (page - 1)) all)) \<and> console w' = console w)"
proof (induction svc all page acc w arbitrary: r w' rule: fetchPages.induct)
  case (1 svc all page acc w)
  let ?w1 = "snd (send svc (ListIssues page) w)"
  let ?found = "acc \<union> fingerprintsOf (take 100 (drop (100 * (page - 1)) all))"
  show ?case
  proof (cases "fails svc (length (trace w))")
    case True
    then have "r = None" "w' = say ErrorFetchingIssues ?w1"
      using "1.prems"(2) by (simp_all add: fetchPages.simps [of svc all page acc w] split_beta)
    then show ?thesis using True
      by (auto simp: prints_def intro!: exI [of _ 0])
  next
    case ok: False
    show ?thesis
    proof (cases "100 * page < length all")
      case False
      then have res: "r = Some ?found" "w' = ?w1"
        using "1.prems"(2) ok by (simp_all add: fetchPages.simps [of svc all page acc w] split_beta Let_def)
      have "drop (100 * page) all = []" using False by simp
      then have "fingerprintsOf (take 100 (drop (100 * (page - 1)) all)) = fingerprintsOf (drop (100 * (page - 1)) all)"
        using fingerprintsOf_page [OF "1.prems"(1), of all] by (simp add: fingerprintsOf_def map_filter_def)
      then show ?thesis using res ok
        by (auto simp: prints_def intro!: exI [of _ 0])
    next
      case True
      then have run: "fetchPages svc all (Suc page) ?found ?w1 = (r, w')"
        using "1.prems"(2) ok by (simp add: fetchPages.simps [of svc all page acc w] split_beta Let_def)
      have w1: "send svc (ListIssues page) w = (True, ?w1)"
        using ok by (simp add: send_def)
      have ih: "issues w' = issues ?w1 \<and> prints ?w1 w' [] \<and>
        (\<exists>k. trace w' = trace ?w1 @ map ListIssues [Suc page ..< Suc page + Suc k] \<and>
             (\<forall>i<k. \<not> fails svc (length (trace ?w1) + i)) \<and>
             (r = None \<longleftrightarrow> fails svc (length (trace ?w1) + k))) \<and>
        (r \<noteq> None \<longrightarrow> r = Some (?found \<union> fingerprintsOf (drop (100 * (Suc page - 1)) all)) \<and>
            console w' = console ?w1)"
        by (rule "1.IH" [OF w1 [symmetric] _ refl True _ run]) simp_all
      then obtain k where k: "trace w' = trace ?w1 @ map ListIssues [Suc page ..< Suc page + Suc k]"
        "\<forall>i<k. \<not> fails svc (length (trace ?w1) + i)" "r = None \<longleftrightarrow> fails svc (length (trace ?w1) + k)"
        by blast
      have tr: "trace w' = trace w @ map ListIssues [page ..< page + Suc (Suc k)]"
        using k(1) by (simp add: upt_conv_Cons del: upt_Suc)
      have nf: "\<forall>i<Suc k. \<not> fails svc (length (trace w) + i)"
      proof (intro allI impI)
        fix i assume "i < Suc k"
        then show "\<not> fails svc (length (trace w) + i)"
          using ok k(2) by (cases i) auto
      qed
      have rn: "r = None \<longleftrightarrow> fails svc (length (trace w) + Suc k)" using k(3) by simp
      have val: "?found \<union> fingerprintsOf (drop (100 * (Suc page - 1)) all)
                 = acc \<union> fingerprintsOf (drop (100 * (page - 1)) all)"
        using fingerprintsOf_page [OF "1.prems"(1), of all] by (simp add: Un_assoc)
      have pr: "prints w w' []" using ih by (simp add: prints_def)
      have ex: "\<exists>k. trace w' = trace w @ map ListIssues [page ..< page + Suc k] \<and>
                  (\<forall>i<k. \<not> fails svc (length (trace w) + i)) \<and>
                  (r = None \<longleftrightarrow> fails svc (length (trace w) + k))"
        using tr nf rn by blast
      have iss: "issues w' = issues w" using ih by simp
      have vl: "r \<noteq> None \<longrightarrow> r = Some (acc \<union> fingerprintsOf (drop (100 * (page - 1)) all)) \<and>
                console w' = console w"
        using ih val by simp
      show ?thesis using iss pr ex vl by blast
    qed
  qed
qed

lemma fetchExistingTodoIssues_p1_result:
  assumes "fetchExistingTodoIssues_p1 svc w = (r, w')"
  shows "issues w' = issues w \<and> prints w w' [] \<and>
   (\<exists>k. trace w' = trace w @ map ListIssues [1 ..< Suc (Suc k)] \<and>
        (\<forall>i<k. \<not> fails svc (length (trace w) + i)) \<and>
        (r = None \<longleftrightarrow> fails svc (length (trace w) + k))) \<and>
   (r \<noteq> None \<longrightarrow> r = Some (fingerprintsOf (todoIssues (issues w))) \<and> console w' = console w)"
  using fetchPages_result [of 1 svc "todoIssues (issues w)" "{}" w r w'] assms
  by (simp add: fetchExistingTodoIssues_p1_def)

lemma resolveProject_p1_facts:
  "trace (snd (resolveProject_p1 svc w)) = trace w @ [ViewerProject] \<and>
   issues (snd (resolveProject_p1 svc w)) = issues w \<and>
   (\<exists>ls. console (snd (resolveProject_p1 svc w)) = console w @ ls \<and> failures ls = [])"
  by (simp add: resolveProject_p1_def getProjectId_def split_beta split: option.splits)

lemma main_p1_shape:
  assumes r: "r = main_p1 e svc tree (start tr)"
  obtains
    (early) m where "trace (snd r) = map ListIssues [1 ..< Suc m]"
      "\<forall>i<m - 1. \<not> fails svc i"
      "(\<exists>i<m. fails svc i) \<longrightarrow> fst r = 1"
      "fst r = 0 \<longrightarrow> newTodos (fingerprintsOf (todoIssues tr)) (scanForTodos [] tree) = []"
      "issues (snd r) = tr"
  | (loop) m pid w5 c w6 where "trace w5 = map ListIssues [1 ..< Suc m] @ [ViewerProject]"
      "0 < m" "\<forall>i<m. \<not> fails svc i" "failures (console w5) = []" "issues w5 = tr"
      "createLoop_p1 svc pid (newTodos (fingerprintsOf (todoIssues tr)) (scanForTodos [] tree)) (0, w5) = (c, w6)"
      "r = (0, say (Complete c) w6)"
proof -
  let ?todos = "scanForTodos [] tree"
  let ?E = "fingerprintsOf (todoIssues tr)"
  let ?w = "say Banner (start tr)"
  let ?w1 = "say (FoundTodos (length ?todos)) (say Scanning ?w)"
  show thesis
  proof (cases "truthy (GITHUB_TOKEN e) \<and> truthy (GITHUB_REPOSITORY e) \<and> ?todos \<noteq> []")
    case False
    then have "trace (snd r) = map ListIssues [1 ..< Suc 0]" "fst r = 1 \<or> ?todos = []" "issues (snd r) = tr"
      unfolding r main_p1_def by (auto simp: Let_def start_def)
    then show thesis using early [of 0] by (auto simp: newTodos_def)
  next
    case True
    obtain f w2 where f: "fetchExistingTodoIssues_p1 svc (say FetchingExisting ?w1) = (f, w2)"
      by (cases "fetchExistingTodoIssues_p1 svc (say FetchingExisting ?w1)")
    from fetchExistingTodoIssues_p1_result [OF f] obtain k where
      k: "issues w2 = tr" "prints (say FetchingExisting ?w1) w2 []"
         "trace w2 = map ListIssues [1 ..< Suc (Suc k)]" "\<forall>i<k. \<not> fails svc i"
         "f = None \<longleftrightarrow> fails svc k"
         "f \<noteq> None \<longrightarrow> f = Some ?E \<and> console w2 = console (say FetchingExisting ?w1)"
      by (auto simp: start_def)
    show thesis
    proof (cases f)
      case None
      then have "r = (1, say FatalError w2)"
        unfolding r main_p1_def using True f by (simp add: Let_def)
      then show thesis using early [of "Suc k"] k None by (auto simp del: upt_Suc)
    next
      case (Some E)
      then have E: "E = ?E" and con: "console w2 = console (say FetchingExisting ?w1)"
        and nf: "\<not> fails svc k" using k by auto
      let ?new = "newTodos ?E ?todos"
      let ?w4 = "say (FoundNew (length ?new)) (say (FoundExisting (card ?E)) w2)"
      have all: "\<forall>i<Suc k. \<not> fails svc i"
        using k(4) nf less_Suc_eq by auto
      show thesis
      proof (cases "?new = []")
        case True
        then have "r = (0, say NoNewTodos ?w4)"
          unfolding r main_p1_def using \<open>truthy (GITHUB_TOKEN e) \<and> truthy (GITHUB_REPOSITORY e) \<and> ?todos \<noteq> []\<close> f Some E
          by (simp add: Let_def)
        then show thesis using early [of "Suc k"] k all True by (auto simp del: upt_Suc)
      next
        case False
        obtain pid w5 where p: "resolveProject_p1 svc ?w4 = (pid, w5)"
          by (cases "resolveProject_p1 svc ?w4")
        obtain c w6 where l: "createLoop_p1 svc pid ?new (0, w5) = (c, w6)"
          by (cases "createLoop_p1 svc pid ?new (0, w5)")
        have rr: "r = (0, say (Complete c) w6)"
          unfolding r main_p1_def using \<open>truthy (GITHUB_TOKEN e) \<and> truthy (GITHUB_REPOSITORY e) \<and> ?todos \<noteq> []\<close> f Some E False p l
          by (simp add: Let_def)
        have t5: "trace w5 = map ListIssues [1 ..< Suc (Suc k)] @ [ViewerProject]"
          using resolveProject_p1_facts [of svc ?w4] p k(3) by simp
        have i5: "issues w5 = tr"
          using resolveProject_p1_facts [of svc ?w4] p k(1) by simp
        have c5: "failures (console w5) = []"
          using resolveProject_p1_facts [of svc ?w4] p con by (auto simp: start_def)
        show thesis using loop [OF t5 _ all c5 i5 l rr] by simp
      qed
    qed
  qed
qed

lemma fetchExistingTodoIssues_p0_result:
  assumes "fetchExistingTodoIssues_p0 svc w = (r, w')"
  shows "issues w' = issues w \<and> trace w' = trace w @ [ListIssues 1] \<and>
   (\<exists>ls. console w' = console w @ ls \<and> failures ls = []) \<and>
   (r = None \<longleftrightarrow> fails svc (length (trace w))) \<and>
   (r \<noteq> None \<longrightarrow> r = Some (fingerprintsOf (listPage (issues w) 1)))"
  using assms by (auto simp: fetchExistingTodoIssues_p0_def split_beta Let_def split: if_splits)

lemma main_p0_shape:
  assumes r: "r = main_p0 e svc tree (start tr)"
  obtains
    (early) m where "trace (snd r) = map ListIssues [1 ..< Suc m]" "m \<le> 1" "fst r = 1"
      "issues (snd r) = tr"
  | (loop) w2 c w3 where "trace w2 = [ListIssues 1]" "\<not> fails svc 0" "scanDirectory [] tree \<noteq> None"
      "failures (console w2) = []" "issues w2 = tr"
      "createLoop_p0 svc (fingerprintsOf (listPage tr 1)) (scanned_p0 tree) (0, w2) = (c, w3)"
      "r = (0, say (Summary (length (scanned_p0 tree)) c (length (scanned_p0 tree) - c)) w3)"
proof -
  let ?w = "say Banner (start tr)"
  show thesis
  proof (cases "truthy (GITHUB_TOKEN e) \<and> truthy (GITHUB_REPOSITORY e)")
    case False
    then have "r = (1, say MissingEnvironment ?w)"
      unfolding r main_p0_def by (auto simp: Let_def)
    then show thesis using early [of 0] by (simp add: start_def)
  next
    case True
    obtain f w1 where f: "fetchExistingTodoIssues_p0 svc ?w = (f, w1)"
      by (cases "fetchExistingTodoIssues_p0 svc ?w")
    note ff = fetchExistingTodoIssues_p0_result [OF f]
    have t1: "trace w1 = [ListIssues 1]" and i1: "issues w1 = tr"
      and c1: "failures (console w1) = []"
      using ff by (auto simp: start_def)
    show thesis
    proof (cases f)
      case None
      then have "r = (1, say FatalError w1)"
        unfolding r main_p0_def using True f by (simp add: Let_def)
      then show thesis using early [of 1] t1 i1 by simp
    next
      case (Some E)
      then have E: "E = fingerprintsOf (listPage tr 1)" and nf: "\<not> fails svc 0"
        using ff by (auto simp: start_def)
      show thesis
      proof (cases "scanDirectory [] tree")
        case None
        then have "r = (1, say FatalError (say Scanning w1))"
          unfolding r main_p0_def using True f Some by (simp add: Let_def)
        then show thesis using early [of 1] t1 i1 by simp
      next
        case (Some files)
        let ?all = "allTodos_p0 files"
        let ?w2 = "say (FoundTodos (length ?all)) (say Scanning w1)"
        have sc: "scanned_p0 tree = ?all" using Some by (simp add: scanned_p0_def)
        obtain c w3 where l: "createLoop_p0 svc (fingerprintsOf (listPage tr 1)) ?all (0, ?w2) = (c, w3)"
          by (cases "createLoop_p0 svc (fingerprintsOf (listPage tr 1)) ?all (0, ?w2)")
        have rr: "r = (0, say (Summary (length ?all) c (length ?all - c)) w3)"
          unfolding r main_p0_def using True f \<open>f = Some E\<close> E Some l by (simp add: Let_def)
        show thesis
          using loop [of ?w2 c w3] t1 nf Some c1 i1 l rr sc by simp
      qed
    qed
  qed
qed

text \<open>A trace that starts with listing requests and has none later.\<close>

lemma lists_first:
  assumes "t = map ListIssues [1 ..< Suc m] @ xs" "filter isList xs = []" "i < length t"
  shows "isList (t ! i) \<longleftrightarrow> i < m" "isCreate (t ! i) \<Longrightarrow> m \<le> i"
proof -
  have x: "\<forall>r\<in>set xs. \<not> isList r" using assms(2) by (simp add: filter_empty_conv)
  show "isList (t ! i) \<longleftrightarrow> i < m"
  proof (cases "i < m")
    case True
    then show ?thesis using assms(1) by (simp add: nth_append del: upt_Suc)
  next
    case False
    then have "t ! i = xs ! (i - m)" "i - m < length xs"
      using assms(1,3) by (auto simp: nth_append simp del: upt_Suc)
    then have "t ! i \<in> set xs" by (metis nth_mem)
    then show ?thesis using x False by simp
  qed
  show "isCreate (t ! i) \<Longrightarrow> m \<le> i"
  proof (rule ccontr)
    assume c: "isCreate (t ! i)" and "\<not> m \<le> i"
    then have "t ! i = ListIssues (Suc i)" using assms(1) by (simp add: nth_append del: upt_Suc)
    then show False using c by simp
  qed
qed

lemma creations_lists [simp]: "creations (map ListIssues ps) = []"
  by (simp add: creations_def filter_empty_conv)

section \<open>The read comes first\<close>

lemma reads_first:
  assumes t: "t = map ListIssues [1 ..< Suc m] @ xs" and x: "filter isList xs = []"
    and ok: "xs \<noteq> [] \<longrightarrow> 0 < m \<and> (\<forall>i<m. \<not> fails svc i)"
    and bad: "(\<exists>i<m. fails svc i) \<longrightarrow> code = 1 \<and> xs = []"
  shows "((\<exists>i < length t. isList (t ! i) \<and> fails svc i) \<longrightarrow> code = (1::nat) \<and> creations t = []) \<and>
         (\<forall>j < length t. isCreate (t ! j) \<longrightarrow>
            isList (t ! 0) \<and> (\<forall>i < length t. isList (t ! i) \<longrightarrow> i < j \<and> \<not> fails svc i))"
proof -
  have one: "(\<exists>i < length t. isList (t ! i) \<and> fails svc i) \<longrightarrow> code = 1 \<and> creations t = []"
  proof
    assume "\<exists>i < length t. isList (t ! i) \<and> fails svc i"
    then obtain i where i: "i < length t" "isList (t ! i)" "fails svc i" by blast
    then have "i < m" using lists_first(1) [OF t x] by blast
    then have b: "code = 1 \<and> xs = []" using bad i(3) by blast
    then show "code = 1 \<and> creations t = []" using t by simp
  qed
  have two: "isList (t ! 0) \<and> (\<forall>i < length t. isList (t ! i) \<longrightarrow> i < j \<and> \<not> fails svc i)"
    if j: "j < length t" "isCreate (t ! j)" for j
  proof -
    have mj: "m \<le> j" using lists_first(2) [OF t x] j by blast
    then have "xs \<noteq> []" using j(1) t by (auto simp del: upt_Suc)
    then have m: "0 < m" "\<forall>i<m. \<not> fails svc i" using ok by auto
    have "0 < length t" using j(1) by linarith
    then have a: "isList (t ! 0)" using lists_first(1) [OF t x, of 0] m(1) by simp
    have b: "i < j \<and> \<not> fails svc i" if "i < length t" "isList (t ! i)" for i
    proof -
      have "i < m" using lists_first(1) [OF t x] that by blast
      then show ?thesis using mj m(2) by auto
    qed
    show ?thesis using a b by blast
  qed
  show ?thesis using one two by blast
qed

lemma adds_trace:
  assumes "adds w w' cs"
  obtains xs where "trace w' = trace w @ xs" "creations xs = cs" "filter isList xs = []"
  using assms by (auto simp: adds_def)

text \<open>
  Claim C9. In a run of either script from a fresh start, every listing request precedes
  every record-creation request, and a creation request is sent only when the listing
  requests all succeeded (there is at least one). So when a listing request fails, the run
  ends with exit status 1 and has sent no creation request.
\<close>

theorem reads_before_creations:
  assumes "r = main_p0 e svc tree (start tr) \<or> r = main_p1 e svc tree (start tr)"
  shows "((\<exists>i < length (trace (snd r)). isList (trace (snd r) ! i) \<and> fails svc i) \<longrightarrow>
            fst r = 1 \<and> creations (trace (snd r)) = []) \<and>
         (\<forall>j < length (trace (snd r)). isCreate (trace (snd r) ! j) \<longrightarrow>
            isList (trace (snd r) ! 0) \<and>
            (\<forall>i < length (trace (snd r)). isList (trace (snd r) ! i) \<longrightarrow> i < j \<and> \<not> fails svc i))"
  using assms
proof
  assume r: "r = main_p0 e svc tree (start tr)"
  from r show ?thesis
  proof (cases rule: main_p0_shape)
    case (early m)
    show ?thesis
      by (rule reads_first [where m = m and xs = "[]"]) (simp_all add: early del: upt_Suc)
  next
    case (loop w2 c w3)
    have "adds w2 (snd (createLoop_p0 svc (fingerprintsOf (listPage tr 1)) (scanned_p0 tree) (0, w2)))
            (map createRequest_p0 (selected_p0 tr tree))"
      unfolding selected_p0_def by (rule createLoop_p0_adds)
    then have "adds w2 w3 (map createRequest_p0 (selected_p0 tr tree))"
      unfolding loop(6) by simp
    then obtain xs where xs: "trace w3 = trace w2 @ xs" "filter isList xs = []"
      by (rule adds_trace)
    show ?thesis
      by (rule reads_first [where m = 1 and xs = xs]) (simp_all add: loop xs)
  qed
next
  assume r: "r = main_p1 e svc tree (start tr)"
  from r show ?thesis
  proof (cases rule: main_p1_shape)
    case (early m)
    show ?thesis
      by (rule reads_first [where m = m and xs = "[]"]) (simp_all add: early del: upt_Suc)
  next
    case (loop m pid w5 c w6)
    have "adds w5 (snd (createLoop_p1 svc pid (selected_p1 tr tree) (0, w5)))
            (map createRequest_p1 (selected_p1 tr tree))"
      by (rule createLoop_p1_adds)
    then have "adds w5 w6 (map createRequest_p1 (selected_p1 tr tree))"
      unfolding selected_p1_def loop(6) by simp
    then obtain xs where xs: "trace w6 = trace w5 @ xs" "filter isList xs = []"
      by (rule adds_trace)
    show ?thesis
      by (rule reads_first [where m = m and xs = "ViewerProject # xs"])
         (simp_all add: loop xs del: upt_Suc)
  qed
qed

theorem reads_before_creations_witness:
  "trace (snd (main_p0 configured (failing 0) treeOne (start []))) = [ListIssues 1] \<and>
   isList (ListIssues 1) \<and> fails (failing 0) 0 \<and>
   fst (main_p0 configured (failing 0) treeOne (start [])) = 1 \<and>
   creations (trace (snd (main_p0 configured (failing 0) treeOne (start [])))) = [] \<and>
   trace (snd (main_p1 configured (failing 0) treeOne (start []))) = [ListIssues 1] \<and>
   fst (main_p1 configured (failing 0) treeOne (start [])) = 1"
proof -
  have t0: "trace (snd (main_p0 configured (failing 0) treeOne (start []))) = [ListIssues 1]"
    by code_simp
  have t1: "trace (snd (main_p1 configured (failing 0) treeOne (start []))) = [ListIssues 1]"
    by code_simp
  have f: "fails (failing 0) 0" by code_simp
  show ?thesis
    using reads_before_creations [of "main_p0 configured (failing 0) treeOne (start [])"
            configured "failing 0" treeOne "[]"]
          reads_before_creations [of "main_p1 configured (failing 0) treeOne (start [])"
            configured "failing 0" treeOne "[]"]
          t0 t1 f
    by auto
qed

section \<open>Failure isolation\<close>

lemma logged_quiet: "creations (trace w) = [] \<Longrightarrow> logged svc w"
  by (auto simp: logged_iff creations_empty_iff)

lemma prints_failures: "prints w w' fs \<Longrightarrow> failures (console w') = failures (console w) @ fs"
  by (auto simp: prints_def)

lemma adds_creations: "adds w w' cs \<Longrightarrow> creations (trace w') = creations (trace w) @ cs"
  by (auto simp: adds_def)

text \<open>
  What part_001 does, for any service: when a creation request of a run fails, the run
  still ends with exit status 0, it has sent a creation request for every selected
  annotation, the failure is on the console with the text of the annotation, and the count
  of the last line is the number of records the run added.
\<close>

lemma isolation_p1:
  assumes r: "r = main_p1 e svc tree (start tr)"
    and j: "j < length (trace (snd r))" "isCreate (trace (snd r) ! j)" "fails svc j"
  shows "fst r = 0 \<and>
         todoTextOf (trace (snd r) ! j) \<in> set (failures (console (snd r))) \<and>
         creations (trace (snd r)) = map createRequest_p1 (selected_p1 tr tree) \<and>
         subseq (failures (console (snd r))) (map text_p1 (selected_p1 tr tree)) \<and>
         (\<exists>c. last (console (snd r)) = Complete c \<and>
              c + length (failures (console (snd r))) = length (selected_p1 tr tree) \<and>
              length (issues (snd r)) = length tr + c)"
  using r
proof (cases rule: main_p1_shape)
  case (early m)
  have "trace (snd r) ! j = ListIssues (Suc j)" using j(1) early(1) by (simp del: upt_Suc)
  then show ?thesis using j(2) by simp
next
  case (loop m pid w5 c w6)
  let ?sel = "selected_p1 tr tree"
  have l: "createLoop_p1 svc pid ?sel (0, w5) = (c, w6)" using loop(6) by (simp add: selected_p1_def)
  have "adds w5 (snd (createLoop_p1 svc pid ?sel (0, w5))) (map createRequest_p1 ?sel)"
    by (rule createLoop_p1_adds)
  then have cr: "creations (trace w6) = map createRequest_p1 ?sel"
    using adds_creations [of w5 w6] l loop(1) by simp
  have "logged svc w5" by (rule logged_quiet) (simp add: loop(1))
  then have "logged svc (snd (createLoop_p1 svc pid ?sel (0, w5)))" by (rule createLoop_p1_logged)
  then have lg: "logged svc w6" using l by simp
  from createLoop_p1_prints [OF l] obtain fs where fs: "prints w5 w6 fs" "subseq fs (map text_p1 ?sel)"
    "c + length fs = 0 + length ?sel" "length (issues w6) + length fs = length (issues w5) + length ?sel"
    by blast
  have f6: "failures (console w6) = fs" using prints_failures [OF fs(1)] loop(4) by simp
  have tx: "todoTextOf (trace w6 ! j) \<in> set (failures (console w6))"
    using lg j loop(7) by (simp add: logged_iff)
  show ?thesis using loop(7) loop(5) cr f6 fs tx by simp
qed

text \<open>
  Evaluating the loop of part_000 one annotation at a time.
\<close>

lemma createLoop_p0_unfold:
  "createLoop_p0 svc E (t # t' # ts) s = createLoop_p0 svc E (t' # ts) (createLoop_p0 svc E [t] s)"
  by (cases s) (simp add: split_beta Let_def split: option.splits)

lemma main_p0_run:
  assumes "truthy (GITHUB_TOKEN e)" "truthy (GITHUB_REPOSITORY e)" "\<not> fails svc 0"
    "scanDirectory [] tree \<noteq> None"
  shows "main_p0 e svc tree (start tr) =
     (0, say (Summary (length (scanned_p0 tree))
                (fst (createLoop_p0 svc (fingerprintsOf (listPage tr 1)) (scanned_p0 tree)
                   (0, say (FoundTodos (length (scanned_p0 tree))) (say Scanning
                         (snd (fetchExistingTodoIssues_p0 svc (say Banner (start tr))))))))
                (length (scanned_p0 tree) -
                 fst (createLoop_p0 svc (fingerprintsOf (listPage tr 1)) (scanned_p0 tree)
                   (0, say (FoundTodos (length (scanned_p0 tree))) (say Scanning
                         (snd (fetchExistingTodoIssues_p0 svc (say Banner (start tr)))))))))
           (snd (createLoop_p0 svc (fingerprintsOf (listPage tr 1)) (scanned_p0 tree)
                   (0, say (FoundTodos (length (scanned_p0 tree))) (say Scanning
                         (snd (fetchExistingTodoIssues_p0 svc (say Banner (start tr)))))))))"
proof -
  obtain files where f: "scanDirectory [] tree = Some files" using assms(4) by auto
  obtain r w1 where fe: "fetchExistingTodoIssues_p0 svc (say Banner (start tr)) = (r, w1)"
    by (cases "fetchExistingTodoIssues_p0 svc (say Banner (start tr))")
  have r: "r = Some (fingerprintsOf (listPage tr 1))"
    using fe assms(3) by (auto simp: fetchExistingTodoIssues_p0_def send_def say_def start_def Let_def)
  have s: "snd (fetchExistingTodoIssues_p0 svc (say Banner (start tr))) = w1"
    using fe by simp
  show ?thesis
    unfolding s
    by (simp add: main_p0_def scanned_p0_def f fe r Let_def assms(1,2) split_beta
          del: createLoop_p0.simps)
qed

lemma failing1_world: "say (FoundTodos 3) (say Scanning (snd (fetchExistingTodoIssues_p0 (failing 1) (say Banner (start [])))))
   = \<lparr>issues = [], trace = [ListIssues 1],
      console = [Banner, FetchingExisting, FoundExisting 0, Scanning, FoundTodos 3]\<rparr>"
  by code_simp

lemma scanned_treeThree: "scanned_p0 treeThree = [todoOne, todoTwo, todoThree]"
  by code_simp

lemma failing1_inputs: "truthy (GITHUB_TOKEN configured)" "truthy (GITHUB_REPOSITORY configured)"
  "\<not> fails (failing 1) 0" "scanDirectory [] treeThree \<noteq> None" "fingerprintsOf (listPage [] 1) = {}"
  by code_simp+

lemma failing1_loop: "(case createLoop_p0 (failing 1) {} [todoOne, todoTwo, todoThree]
     (0, \<lparr>issues = [], trace = [ListIssues 1],
          console = [Banner, FetchingExisting, FoundExisting 0, Scanning, FoundTodos 3]\<rparr>) of
     (c, w) \<Rightarrow> c = 0 \<and> length (issues w) = 2 \<and> failures (console w) = [''one'', ''two'', ''three'']
        \<and> map todoTextOf (creations (trace w)) = [''one'', ''two'', ''three''])"
  by (simp only: createLoop_p0_unfold) code_simp

text \<open>
  Claim C7, at a failing input. A file with the TODO lines \<^verbatim>\<open>one\<close>, \<^verbatim>\<open>two\<close>, \<^verbatim>\<open>three\<close>, an
  empty tracker, an owner without a project, and a service that fails the creation request
  for \<^verbatim>\<open>one\<close> only. part_000 still attempts \<^verbatim>\<open>two\<close> and \<^verbatim>\<open>three\<close> and creates their
  records, but \<^verbatim>\<open>addIssueToProject\<close> throws for each into the same \<^verbatim>\<open>catch\<close>: the console
  reports all three annotations as errors of creation and the summary counts none created
  and three skipped. part_001 on the same tree, with its first creation request failing,
  reports \<^verbatim>\<open>one\<close> alone and counts the two records.
\<close>

theorem created_but_not_counted:
  "fst (main_p0 configured (failing 1) treeThree (start [])) = 0 \<and>
   map todoTextOf (creations (trace (snd (main_p0 configured (failing 1) treeThree (start [])))))
     = [''one'', ''two'', ''three''] \<and>
   length (issues (snd (main_p0 configured (failing 1) treeThree (start [])))) = 2 \<and>
   failures (console (snd (main_p0 configured (failing 1) treeThree (start []))))
     = [''one'', ''two'', ''three''] \<and>
   last (console (snd (main_p0 configured (failing 1) treeThree (start [])))) = Summary 3 0 3 \<and>
   fst (main_p1 configured (failing 2) treeThree (start [])) = 0 \<and>
   length (issues (snd (main_p1 configured (failing 2) treeThree (start [])))) = 2 \<and>
   failures (console (snd (main_p1 configured (failing 2) treeThree (start [])))) = [''one''] \<and>
   last (console (snd (main_p1 configured (failing 2) treeThree (start [])))) = Complete 2"
proof -
  let ?L = "createLoop_p0 (failing 1) {} [todoOne, todoTwo, todoThree]
     (0, \<lparr>issues = [], trace = [ListIssues 1],
          console = [Banner, FetchingExisting, FoundExisting 0, Scanning, FoundTodos 3]\<rparr>)"
  have m: "main_p0 configured (failing 1) treeThree (start []) =
           (0, say (Summary 3 (fst ?L) (3 - fst ?L)) (snd ?L))"
  proof -
    have len: "length [todoOne, todoTwo, todoThree] = 3" by simp
    show ?thesis
      by (simp only: main_p0_run [OF failing1_inputs(1,2,3,4)] scanned_treeThree failing1_inputs(5) len failing1_world)
  qed
  have l: "fst ?L = 0" "length (issues (snd ?L)) = 2"
    "failures (console (snd ?L)) = [''one'', ''two'', ''three'']"
    "map todoTextOf (creations (trace (snd ?L))) = [''one'', ''two'', ''three'']"
    using failing1_loop by (simp_all add: split_beta del: createLoop_p0.simps)
  have p1: "(case main_p1 configured (failing 2) treeThree (start []) of
      (c, w) \<Rightarrow> c = 0 \<and> length (issues w) = 2 \<and> failures (console w) = [''one''] \<and>
                last (console w) = Complete 2)"
    by code_simp
  have f: "failures (console (say (Summary 3 0 3) (snd ?L))) = [''one'', ''two'', ''three'']"
    using l(3) by (simp add: say_def failures_def map_filter_def)
  show ?thesis
    using l(1,2,4) f p1 unfolding m
    by (simp add: split_beta say_def del: createLoop_p0.simps)
qed

theorem created_but_not_counted_witness:
  "length (issues (snd (main_p0 configured (failing 1) treeThree (start [])))) = 2 \<and>
   last (console (snd (main_p0 configured (failing 1) treeThree (start [])))) = Summary 3 0 3"
  using created_but_not_counted by simp

lemma main_p1_creations:
  assumes r: "r = main_p1 e svc tree (start tr)"
  shows "creations (trace (snd r)) = (if fst r = 0 then map createRequest_p1 (selected_p1 tr tree) else [])"
  using r
proof (cases rule: main_p1_shape)
  case (early m)
  then show ?thesis by (simp add: selected_p1_def del: upt_Suc)
next
  case (loop m pid w5 c w6)
  have "adds w5 (snd (createLoop_p1 svc pid (selected_p1 tr tree) (0, w5))) (map createRequest_p1 (selected_p1 tr tree))"
    by (rule createLoop_p1_adds)
  then show ?thesis
    using adds_creations [of w5 w6] loop by (simp add: selected_p1_def del: upt_Suc)
qed

lemma main_p0_creations:
  assumes r: "r = main_p0 e svc tree (start tr)"
  shows "creations (trace (snd r)) = (if fst r = 0 then map createRequest_p0 (selected_p0 tr tree) else [])"
  using r
proof (cases rule: main_p0_shape)
  case (early m)
  then show ?thesis by (simp del: upt_Suc)
next
  case (loop w2 c w3)
  have "adds w2 (snd (createLoop_p0 svc (fingerprintsOf (listPage tr 1)) (scanned_p0 tree) (0, w2)))
          (map createRequest_p0 (selected_p0 tr tree))"
    unfolding selected_p0_def by (rule createLoop_p0_adds)
  then show ?thesis
    using adds_creations [of w2 w3] loop by simp
qed

section \<open>Repeated annotations\<close>

text \<open>
  Claim C10, at a failing input. A file with the line \<^verbatim>\<open>// TODO: fix auth\<close> twice, an empty
  tracker and a service that fails nothing. The two occurrences have the one identity
  \<^verbatim>\<open>a.js|fix auth\<close>; the set of existing identities is read once and not extended while
  records are created, so one run of part_001 leaves two records that bear that identity.
\<close>

theorem repeated_annotation_two_records:
  "map identity_p1 (scanForTodos [] treeTwice) = [''a.js|fix auth'', ''a.js|fix auth''] \<and>
   recordsBearing ''a.js|fix auth'' (issues (snd (main_p1 configured reliable treeTwice (start [])))) = 2"
  by code_simp

section \<open>Reconciler\<close>

text \<open>
  Claim C2. The reconciler of part_001 keeps an annotation if and only if it was scanned
  and its identity is not in the existing set; it keeps the scan order and every occurrence
  (an annotation outside the set is kept as often as it was scanned); and the loop sends
  creation requests for exactly the annotations kept, in that order. part_000 reconciles
  inside its loop: it sends creation requests for exactly the scanned annotations whose
  fingerprint is not in the set, in scan order.
\<close>

theorem reconcile_correct:
  "(a \<in> set (newTodos E S) \<longleftrightarrow> a \<in> set S \<and> identity_p1 a \<notin> E) \<and>
   subseq (newTodos E S) S \<and>
   count_list (newTodos E S) a = (if identity_p1 a \<in> E then 0 else count_list S a) \<and>
   creations (trace (snd (createLoop_p1 svc pid (newTodos E S) (n, w)))) =
     creations (trace w) @ map createRequest_p1 (newTodos E S) \<and>
   creations (trace (snd (createLoop_p0 svc E S0 (n, w)))) =
     creations (trace w) @ map createRequest_p0 (filter (\<lambda>t. fingerprint_p0 t \<notin> E) S0)"
proof -
  have c: "count_list (filter P xs) x = (if P x then count_list xs x else 0)" for P and xs :: "todo_p1 list" and x
    by (induction xs) auto
  show ?thesis
    using adds_creations [OF createLoop_p1_adds [of w svc pid "newTodos E S" n]]
          adds_creations [OF createLoop_p0_adds [of w svc E S0 n]]
    by (simp add: newTodos_def identity_p1_def c)
qed

theorem reconcile_correct_witness:
  "newTodos {''a.txt|fix auth''}
     [\<lparr>filePath_p1 = ''a.txt'', text_p1 = ''fix auth'', lineNumber_p1 = 3\<rparr>,
      \<lparr>filePath_p1 = ''b.txt'', text_p1 = ''fix auth'', lineNumber_p1 = 1\<rparr>]
   = [\<lparr>filePath_p1 = ''b.txt'', text_p1 = ''fix auth'', lineNumber_p1 = 1\<rparr>] \<and>
   count_list (newTodos {''a.txt|fix auth''}
     [\<lparr>filePath_p1 = ''a.txt'', text_p1 = ''fix auth'', lineNumber_p1 = 3\<rparr>,
      \<lparr>filePath_p1 = ''b.txt'', text_p1 = ''fix auth'', lineNumber_p1 = 1\<rparr>])
     \<lparr>filePath_p1 = ''b.txt'', text_p1 = ''fix auth'', lineNumber_p1 = 1\<rparr> = 1"
proof -
  have e: "newTodos {''a.txt|fix auth''}
     [\<lparr>filePath_p1 = ''a.txt'', text_p1 = ''fix auth'', lineNumber_p1 = 3\<rparr>,
      \<lparr>filePath_p1 = ''b.txt'', text_p1 = ''fix auth'', lineNumber_p1 = 1\<rparr>]
   = [\<lparr>filePath_p1 = ''b.txt'', text_p1 = ''fix auth'', lineNumber_p1 = 1\<rparr>]"
    by code_simp
  show ?thesis
    using reconcile_correct [of "\<lparr>filePath_p1 = ''b.txt'', text_p1 = ''fix auth'', lineNumber_p1 = 1\<rparr>"
        "{''a.txt|fix auth''}"
        "[\<lparr>filePath_p1 = ''a.txt'', text_p1 = ''fix auth'', lineNumber_p1 = 3\<rparr>,
          \<lparr>filePath_p1 = ''b.txt'', text_p1 = ''fix auth'', lineNumber_p1 = 1\<rparr>]"
        reliable None 0 "start []" "[]"] e
    by simp
qed

end
